theory Spec2Isabelle
  imports Complex_Main "HOL-Library.AList"
begin

section \<open>Run-time values\<close>

text \<open>
  The engine's conditions, contexts and action parameters are typed \<^verbatim>\<open>any\<close> in the source.
  They are modelled by the plain data a caller can write down: \<^verbatim>\<open>undefined\<close>, \<^verbatim>\<open>null\<close>,
  booleans, integral numbers, strings, arrays and records. Arrays and records are heap
  objects: each carries the address it lives at, because \<^verbatim>\<open>===\<close> and \<^verbatim>\<open>includes\<close>
  compare objects by identity. Records are plain objects with \<^verbatim>\<open>Object.prototype\<close> as
  prototype, their own properties listed with distinct keys. Numbers are the integers
  (exact in a double below \<open>2 ^ 53\<close>); strings are ASCII.
\<close>

datatype jsval =
    JUndefined
  | JNull
  | JBool bool
  | JNum int
  | JStr string
  | JArr nat "jsval list"
  | JObj nat "(string \<times> jsval) list"

text \<open>The errors the engine raises, one constructor per \<^verbatim>\<open>throw\<close> of the source, and the
  two that come from outside it: \<open>TypeError\<close> is raised by the language itself,
  \<open>CollaboratorError\<close> by the tactical core.\<close>

datatype error =
    EmptyProtocol string
  | InvalidStepReference string string
  | ProtocolNotFound string
  | ConditionsNotMet string
  | UnknownAction string
  | TypeError
  | CollaboratorError

text \<open>The result of converting to a number: a double is \<^verbatim>\<open>NaN\<close>, finite or infinite.
  Finite values are kept exact: the rounding of a decimal string to the nearest double
  is not modelled.\<close>

datatype jsnum = NaN | Fin rat | PosInf | NegInf

datatype jsprim = PUndefined | PNull | PBool bool | PNum int | PStr string

subsection \<open>Property access\<close>

text \<open>\<^verbatim>\<open>v.k\<close> for one of the keys the engine reads; none of them is defined on a
  prototype, so anything but a record with that own property yields \<^verbatim>\<open>undefined\<close>.\<close>

definition js_prop :: "(string \<times> jsval) list \<Rightarrow> string \<Rightarrow> jsval" where
  "js_prop fs k = (case map_of fs k of None \<Rightarrow> JUndefined | Some v \<Rightarrow> v)"

definition js_get :: "jsval \<Rightarrow> string \<Rightarrow> jsval" where
  "js_get v k = (case v of JObj a fs \<Rightarrow> js_prop fs k | _ \<Rightarrow> JUndefined)"

subsection \<open>Strict equality\<close>

fun strict_equals :: "jsval \<Rightarrow> jsval \<Rightarrow> bool" where
  "strict_equals JUndefined JUndefined = True"
| "strict_equals JNull JNull = True"
| "strict_equals (JBool a) (JBool b) = (a = b)"
| "strict_equals (JNum a) (JNum b) = (a = b)"
| "strict_equals (JStr a) (JStr b) = (a = b)"
| "strict_equals (JArr a xs) (JArr b ys) = (a = b)"
| "strict_equals (JObj a fs) (JObj b gs) = (a = b)"
| "strict_equals _ _ = False"

text \<open>\<^verbatim>\<open>Array.isArray(v) && v.includes(x)\<close>. \<^verbatim>\<open>includes\<close> compares with SameValueZero,
  which differs from \<^verbatim>\<open>===\<close> on \<^verbatim>\<open>NaN\<close> only, and no value here is \<^verbatim>\<open>NaN\<close>.\<close>

fun array_includes :: "jsval \<Rightarrow> jsval \<Rightarrow> bool" where
  "array_includes (JArr a xs) x = list_ex (\<lambda>y. strict_equals y x) xs"
| "array_includes _ x = False"

subsection \<open>Conversion to a string\<close>

text \<open>The decimal digits of a natural number; \<open>digit_char\<close> is only asked for a
  digit below ten.\<close>

definition digit_char :: "nat \<Rightarrow> char" where
  "digit_char d = ''0123456789'' ! d"

function string_of_nat :: "nat \<Rightarrow> string" where
  "string_of_nat n =
     (if n < 10 then [digit_char n] else string_of_nat (n div 10) @ [digit_char (n mod 10)])"
  by pat_completeness auto
termination
  by (relation "measure (\<lambda>n. n)") auto

definition string_of_int :: "int \<Rightarrow> string" where
  "string_of_int i = (if i < 0 then CHR ''-'' # string_of_nat (nat (- i)) else string_of_nat (nat i))"

text \<open>\<^verbatim>\<open>ToString\<close>. A record answers through \<^verbatim>\<open>Object.prototype.toString\<close>; a record with an
  own property \<^verbatim>\<open>toString\<close> shadows that method with a value that cannot be called, and
  the conversion raises. An array answers with \<^verbatim>\<open>join(",")\<close>, where \<^verbatim>\<open>undefined\<close> and
  \<^verbatim>\<open>null\<close> elements print as the empty string.\<close>

fun js_to_string :: "jsval \<Rightarrow> error + string"
  and js_join :: "jsval list \<Rightarrow> error + string" where
  "js_to_string JUndefined = Inr ''undefined''"
| "js_to_string JNull = Inr ''null''"
| "js_to_string (JBool b) = Inr (if b then ''true'' else ''false'')"
| "js_to_string (JNum i) = Inr (string_of_int i)"
| "js_to_string (JStr s) = Inr s"
| "js_to_string (JArr a xs) = js_join xs"
| "js_to_string (JObj a fs) =
     (if ''toString'' \<in> fst ` set fs then Inl TypeError else Inr ''[object Object]'')"
| "js_join [] = Inr []"
| "js_join (x # xs) =
     (case (if x = JUndefined \<or> x = JNull then Inr [] else js_to_string x) of
        Inl e \<Rightarrow> Inl e
      | Inr s \<Rightarrow>
          (case js_join xs of
             Inl e \<Rightarrow> Inl e
           | Inr t \<Rightarrow> Inr (if xs = [] then s else s @ CHR '','' # t)))"

text \<open>\<^verbatim>\<open>ToPrimitive\<close> with hint number: \<^verbatim>\<open>valueOf\<close> of an array or a record returns the
  object itself, so the answer is that of \<^verbatim>\<open>toString\<close>.\<close>

fun to_primitive :: "jsval \<Rightarrow> error + jsprim" where
  "to_primitive JUndefined = Inr PUndefined"
| "to_primitive JNull = Inr PNull"
| "to_primitive (JBool b) = Inr (PBool b)"
| "to_primitive (JNum i) = Inr (PNum i)"
| "to_primitive (JStr s) = Inr (PStr s)"
| "to_primitive v = (case js_to_string v of Inl e \<Rightarrow> Inl e | Inr s \<Rightarrow> Inr (PStr s))"

subsection \<open>Conversion to a number\<close>

definition is_space :: "char \<Rightarrow> bool" where
  "is_space c = (c \<in> set [CHR '' '', CHR 0x09, CHR 0x0A, CHR 0x0B, CHR 0x0C, CHR 0x0D])"

definition trim :: "string \<Rightarrow> string" where
  "trim s = rev (dropWhile is_space (rev (dropWhile is_space s)))"

definition digit_of :: "char \<Rightarrow> nat option" where
  "digit_of c =
     (let n = (of_char c :: nat) in
      if 48 \<le> n \<and> n \<le> 57 then Some (n - 48)
      else if 97 \<le> n \<and> n \<le> 102 then Some (n - 87)
      else if 65 \<le> n \<and> n \<le> 70 then Some (n - 55)
      else None)"

definition is_digit :: "nat \<Rightarrow> char \<Rightarrow> bool" where
  "is_digit b c = (case digit_of c of None \<Rightarrow> False | Some d \<Rightarrow> d < b)"

definition digits_val :: "nat \<Rightarrow> string \<Rightarrow> nat" where
  "digits_val b s =
     foldl (\<lambda>acc c. acc * b + (case digit_of c of None \<Rightarrow> 0 | Some d \<Rightarrow> d)) 0 s"

text \<open>A literal in base 2, 8 or 16 after its prefix: at least one digit, nothing else.\<close>

definition radix_literal :: "nat \<Rightarrow> string \<Rightarrow> jsnum" where
  "radix_literal b s =
     (if s \<noteq> [] \<and> list_all (is_digit b) s then Fin (of_nat (digits_val b s)) else NaN)"

text \<open>The exponent part after \<^verbatim>\<open>e\<close>: an optional sign and at least one digit.\<close>

definition exponent_part :: "string \<Rightarrow> int option" where
  "exponent_part s =
     (let (neg, ds) =
        (case s of
           c # t \<Rightarrow> if c = CHR ''-'' then (True, t) else if c = CHR ''+'' then (False, t) else (False, s)
         | [] \<Rightarrow> (False, s))
      in if ds \<noteq> [] \<and> list_all (is_digit 10) ds
         then Some (if neg then - int (digits_val 10 ds) else int (digits_val 10 ds))
         else None)"

definition scale10 :: "rat \<Rightarrow> int \<Rightarrow> rat" where
  "scale10 r e = (if 0 \<le> e then r * 10 ^ nat e else r / 10 ^ nat (- e))"

text \<open>An unsigned decimal literal: digits, an optional fraction and an optional exponent,
  with a digit before or after the point.\<close>

definition unsigned_decimal :: "string \<Rightarrow> rat option" where
  "unsigned_decimal s =
     (let d1 = takeWhile (is_digit 10) s;
          r1 = dropWhile (is_digit 10) s;
          (d2, r2) =
            (case r1 of
               c # t \<Rightarrow>
                 if c = CHR ''.'' then (takeWhile (is_digit 10) t, dropWhile (is_digit 10) t)
                 else ([], r1)
             | [] \<Rightarrow> ([], r1));
          mant = of_nat (digits_val 10 (d1 @ d2)) / 10 ^ length d2
      in if d1 = [] \<and> d2 = [] then None
         else
           (case r2 of
              [] \<Rightarrow> Some mant
            | c # t \<Rightarrow>
                if c = CHR ''e'' \<or> c = CHR ''E''
                then (case exponent_part t of None \<Rightarrow> None | Some e \<Rightarrow> Some (scale10 mant e))
                else None))"

definition signed_decimal :: "string \<Rightarrow> jsnum" where
  "signed_decimal s =
     (let (neg, u) =
        (case s of
           c # t \<Rightarrow> if c = CHR ''-'' then (True, t) else if c = CHR ''+'' then (False, t) else (False, s)
         | [] \<Rightarrow> (False, s))
      in if u = ''Infinity'' then (if neg then NegInf else PosInf)
         else
           (case unsigned_decimal u of
              None \<Rightarrow> NaN
            | Some r \<Rightarrow> Fin (if neg then - r else r)))"

text \<open>\<^verbatim>\<open>StringToNumber\<close>: white space is trimmed, the empty string is zero, and
  anything that is not a numeric literal is \<^verbatim>\<open>NaN\<close>.\<close>

definition string_to_number :: "string \<Rightarrow> jsnum" where
  "string_to_number s =
     (let t = trim s in
      if t = [] then Fin 0
      else if take 2 t = ''0x'' \<or> take 2 t = ''0X'' then radix_literal 16 (drop 2 t)
      else if take 2 t = ''0o'' \<or> take 2 t = ''0O'' then radix_literal 8 (drop 2 t)
      else if take 2 t = ''0b'' \<or> take 2 t = ''0B'' then radix_literal 2 (drop 2 t)
      else signed_decimal t)"

fun to_number :: "jsprim \<Rightarrow> jsnum" where
  "to_number PUndefined = NaN"
| "to_number PNull = Fin 0"
| "to_number (PBool b) = Fin (if b then 1 else 0)"
| "to_number (PNum i) = Fin (of_int i)"
| "to_number (PStr s) = string_to_number s"

subsection \<open>Relational comparison\<close>

text \<open>Strings compare by code unit, a proper prefix first.\<close>

fun string_less :: "string \<Rightarrow> string \<Rightarrow> bool" where
  "string_less [] [] = False"
| "string_less [] (y # ys) = True"
| "string_less (x # xs) [] = False"
| "string_less (x # xs) (y # ys) =
     (if (of_char x :: nat) < of_char y then True
      else if (of_char y :: nat) < of_char x then False
      else string_less xs ys)"

text \<open>The numeric comparison is undefined (\<open>None\<close>) when an operand is \<^verbatim>\<open>NaN\<close>.\<close>

fun number_less :: "jsnum \<Rightarrow> jsnum \<Rightarrow> bool option" where
  "number_less NaN _ = None"
| "number_less _ NaN = None"
| "number_less (Fin a) (Fin b) = Some (a < b)"
| "number_less (Fin a) PosInf = Some True"
| "number_less (Fin a) NegInf = Some False"
| "number_less PosInf _ = Some False"
| "number_less NegInf NegInf = Some False"
| "number_less NegInf _ = Some True"

fun prim_less :: "jsprim \<Rightarrow> jsprim \<Rightarrow> bool option" where
  "prim_less (PStr a) (PStr b) = Some (string_less a b)"
| "prim_less a b = number_less (to_number a) (to_number b)"

text \<open>\<^verbatim>\<open>IsLessThan(x, y)\<close>: both operands are made primitive, then compared.\<close>

definition is_less_than :: "jsval \<Rightarrow> jsval \<Rightarrow> error + bool option" where
  "is_less_than x y =
     (case to_primitive x of
        Inl e \<Rightarrow> Inl e
      | Inr px \<Rightarrow>
          (case to_primitive y of
             Inl e \<Rightarrow> Inl e
           | Inr py \<Rightarrow> Inr (prim_less px py)))"

text \<open>\<^verbatim>\<open>a < b\<close> and \<^verbatim>\<open>a > b\<close>: an undefined comparison is \<^verbatim>\<open>false\<close>.\<close>

definition js_less :: "jsval \<Rightarrow> jsval \<Rightarrow> error + bool" where
  "js_less a b =
     (case is_less_than a b of Inl e \<Rightarrow> Inl e | Inr r \<Rightarrow> Inr (r = Some True))"

definition js_greater :: "jsval \<Rightarrow> jsval \<Rightarrow> error + bool" where
  "js_greater a b =
     (case is_less_than b a of Inl e \<Rightarrow> Inl e | Inr r \<Rightarrow> Inr (r = Some True))"

section \<open>The protocol engine\<close>

subsection \<open>Data model\<close>

text \<open>
  The interfaces of the source, field for field. The fields \<^verbatim>\<open>id\<close>, \<^verbatim>\<open>name\<close>, \<^verbatim>\<open>type\<close> and
  \<^verbatim>\<open>value\<close> carry the name of their interface, since a record field is a constant of its
  own here. The optional \<^verbatim>\<open>completionCriteria\<close> is an \<open>option\<close>; the optional fields
  of a context hold \<^verbatim>\<open>undefined\<close> when absent. The kinds and operators of a condition
  are the closed unions the source declares, so the \<^verbatim>\<open>default\<close> branches of
  \<^verbatim>\<open>getContextValue\<close> and \<^verbatim>\<open>evaluateCondition\<close> have no input.
\<close>

datatype condition_type = Environmental | Tactical | Temporal

datatype condition_operator = Equals | Greater | Less | Contains

record ProtocolCondition =
  cond_type :: condition_type
  operator :: condition_operator
  cond_value :: jsval

record ProtocolStep =
  step_id :: string
  action :: string
  parameters :: "(string \<times> jsval) list"
  nextSteps :: "string list"
  completionCriteria :: "ProtocolCondition list option"

datatype protocol_type = Standard | Emergency | Custom

record Protocol =
  protocol_id :: string
  protocol_name :: string
  protocol_type :: protocol_type
  steps :: "ProtocolStep list"
  conditions :: "ProtocolCondition list"

record ProtocolContext =
  environmental :: jsval
  tactical :: jsval
  activeSteps :: "string list option"

text \<open>The default context \<^verbatim>\<open>{}\<close> of \<^verbatim>\<open>activateProtocol\<close>.\<close>

definition empty_context :: ProtocolContext where
  "empty_context = \<lparr>environmental = JUndefined, tactical = JUndefined, activeSteps = None\<rparr>"

text \<open>What the engine emits, and what it asks of the tactical core. A call to
  \<^verbatim>\<open>addTacticalElement\<close> is recorded by its layer, the position and metadata parameters
  the marker is built from, and the timestamp merged into the metadata.\<close>

datatype event =
    ProtocolLoaded string string
  | ProtocolActivated string string
  | ProtocolDeactivated string
  | StepExecuted string string bool
  | StepError string string error

datatype core_call =
    AddTacticalElement string jsval jsval int
  | UpdateSituationalAwareness jsval jsval

text \<open>
  The engine's state: the two maps of the source, and the two traces of its effects, the
  notifications emitted and the calls made to the tactical core. \<^verbatim>\<open>activeProtocols\<close> is
  iterated by \<^verbatim>\<open>evaluateProtocols\<close>, so it keeps its insertion order, as a
  \<^verbatim>\<open>Map\<close> does: \<open>AList.update\<close> overwrites a key in place and appends a new one.
\<close>

record engine =
  protocols :: "string \<rightharpoonup> Protocol"
  activeProtocols :: "(string \<times> string list) list"
  emitted :: "event list"
  core_calls :: "core_call list"

definition initial_engine :: engine where
  "initial_engine = \<lparr>protocols = Map.empty, activeProtocols = [], emitted = [], core_calls = []\<rparr>"

text \<open>
  What the engine does not control: the reading of \<^verbatim>\<open>Date.now()\<close>, taken as constant
  during one operation, and whether a call to the tactical core raises, which may depend
  on the calls made before it.
\<close>

record world =
  now :: int
  core_throws :: "core_call list \<Rightarrow> core_call \<Rightarrow> bool"

definition emit :: "event \<Rightarrow> engine \<Rightarrow> engine" where
  "emit e st = st\<lparr>emitted := emitted st @ [e]\<rparr>"

subsection \<open>Loading\<close>

definition validateProtocol :: "Protocol \<Rightarrow> error option" where
  "validateProtocol protocol =
     (if steps protocol = [] then Some (EmptyProtocol (protocol_id protocol))
      else
        (let stepIds = set (map step_id (steps protocol)) in
         case find (\<lambda>nextId. nextId \<notin> stepIds) (concat (map nextSteps (steps protocol))) of
           None \<Rightarrow> None
         | Some nextId \<Rightarrow> Some (InvalidStepReference nextId (protocol_id protocol))))"

definition loadProtocol :: "Protocol \<Rightarrow> engine \<Rightarrow> error option \<times> engine" where
  "loadProtocol protocol st =
     (case validateProtocol protocol of
        Some e \<Rightarrow> (Some e, st)
      | None \<Rightarrow>
          (None,
           emit (ProtocolLoaded (protocol_id protocol) (protocol_name protocol))
             (st\<lparr>protocols := (protocols st)(protocol_id protocol \<mapsto> protocol)\<rparr>)))"

subsection \<open>Conditions\<close>

definition getContextValue :: "int \<Rightarrow> condition_type \<Rightarrow> ProtocolContext \<Rightarrow> jsval" where
  "getContextValue t ty context =
     (case ty of
        Environmental \<Rightarrow> environmental context
      | Tactical \<Rightarrow> tactical context
      | Temporal \<Rightarrow> JNum t)"

definition evaluateCondition :: "int \<Rightarrow> ProtocolCondition \<Rightarrow> ProtocolContext \<Rightarrow> error + bool" where
  "evaluateCondition t condition context =
     (let actualValue = getContextValue t (cond_type condition) context in
      case operator condition of
        Equals \<Rightarrow> Inr (strict_equals actualValue (cond_value condition))
      | Greater \<Rightarrow> js_greater actualValue (cond_value condition)
      | Less \<Rightarrow> js_less actualValue (cond_value condition)
      | Contains \<Rightarrow> Inr (array_includes actualValue (cond_value condition)))"

text \<open>\<^verbatim>\<open>cs.every(condition => this.evaluateCondition(condition, context))\<close>: the
  conditions in order, stopping at the first that is false or raises.\<close>

fun every_condition :: "int \<Rightarrow> ProtocolCondition list \<Rightarrow> ProtocolContext \<Rightarrow> error + bool" where
  "every_condition t [] context = Inr True"
| "every_condition t (c # cs) context =
     (case evaluateCondition t c context of
        Inl e \<Rightarrow> Inl e
      | Inr b \<Rightarrow> if b then every_condition t cs context else Inr False)"

subsection \<open>Actions\<close>

definition call_core :: "world \<Rightarrow> core_call \<Rightarrow> engine \<Rightarrow> error option \<times> engine" where
  "call_core w c st =
     (if core_throws w (core_calls st) c then Some CollaboratorError else None,
      st\<lparr>core_calls := core_calls st @ [c]\<rparr>)"

definition executeAction ::
  "world \<Rightarrow> string \<Rightarrow> (string \<times> jsval) list \<Rightarrow> ProtocolContext \<Rightarrow> engine \<Rightarrow> error option \<times> engine" where
  "executeAction w act params context st =
     (if act = ''mark_location'' then
        call_core w
          (AddTacticalElement ''operations'' (js_prop params ''position'')
             (js_prop params ''metadata'') (now w)) st
      else if act = ''update_situation'' then
        call_core w
          (UpdateSituationalAwareness (js_prop params ''center'') (js_prop params ''radius'')) st
      else (Some (UnknownAction act), st))"

subsection \<open>Executing and progressing\<close>

text \<open>\<^verbatim>\<open>!step.completionCriteria || step.completionCriteria.every(...)\<close>; an empty
  array is truthy and passes through \<^verbatim>\<open>every\<close>.\<close>

definition isComplete :: "int \<Rightarrow> ProtocolStep \<Rightarrow> ProtocolContext \<Rightarrow> error + bool" where
  "isComplete t step context =
     (case completionCriteria step of
        None \<Rightarrow> Inr True
      | Some cs \<Rightarrow> every_condition t cs context)"

text \<open>The first half of \<^verbatim>\<open>progressProtocol\<close>: the new active steps are the old ones
  without the current step's id, followed by its successors.\<close>

definition updatedSteps :: "Protocol \<Rightarrow> ProtocolStep \<Rightarrow> engine \<Rightarrow> string list" where
  "updatedSteps protocol currentStep st =
     (let activeSteps =
        (case map_of (activeProtocols st) (protocol_id protocol) of None \<Rightarrow> [] | Some a \<Rightarrow> a)
      in filter (\<lambda>i. i \<noteq> step_id currentStep) activeSteps @ nextSteps currentStep)"

definition set_active :: "string \<Rightarrow> string list \<Rightarrow> engine \<Rightarrow> engine" where
  "set_active protocolId ids st =
     st\<lparr>activeProtocols := AList.update protocolId ids (activeProtocols st)\<rparr>"

definition find_step :: "Protocol \<Rightarrow> string \<Rightarrow> ProtocolStep option" where
  "find_step protocol i = find (\<lambda>s. step_id s = i) (steps protocol)"

text \<open>
  \<^verbatim>\<open>executeProtocolStep\<close> and \<^verbatim>\<open>progressProtocol\<close> call each other, through the
  \<^verbatim>\<open>Promise.all\<close> over the successors; on a cyclic step graph the calls never end. The
  first argument bounds the depth of the calls, and \<open>None\<close> says that the bound was
  reached. The steps a \<^verbatim>\<open>Promise.all\<close> starts interleave at their \<^verbatim>\<open>await\<close>s in the
  source; here they are run one after the other, in the order of the array, each to its
  end. An id that names no step is skipped. The \<^verbatim>\<open>try\<close> block covers the whole
  body, so an error of the action or of a completion criterion ends in a
  \<^verbatim>\<open>step:error\<close> notification. A \<^verbatim>\<open>situation:updated\<close> event that the tactical core emits
  while it serves a call is an event of its own, handled by \<^verbatim>\<open>evaluateProtocols\<close>.
\<close>

fun executeProtocolStep ::
    "nat \<Rightarrow> world \<Rightarrow> Protocol \<Rightarrow> ProtocolStep \<Rightarrow> ProtocolContext \<Rightarrow> engine \<Rightarrow> engine option"
  and progressProtocol ::
    "nat \<Rightarrow> world \<Rightarrow> Protocol \<Rightarrow> ProtocolStep \<Rightarrow> ProtocolContext \<Rightarrow> engine \<Rightarrow> engine option"
  and executeSteps ::
    "nat \<Rightarrow> world \<Rightarrow> Protocol \<Rightarrow> string list \<Rightarrow> ProtocolContext \<Rightarrow> engine \<Rightarrow> engine option"
  where
  "executeProtocolStep 0 w protocol step context st = None"
| "executeProtocolStep (Suc n) w protocol step context st =
     (case executeAction w (action step) (parameters step) context st of
        (Some e, st1) \<Rightarrow> Some (emit (StepError (protocol_id protocol) (step_id step) e) st1)
      | (None, st1) \<Rightarrow>
          (case isComplete (now w) step context of
             Inl e \<Rightarrow> Some (emit (StepError (protocol_id protocol) (step_id step) e) st1)
           | Inr completed \<Rightarrow>
               if completed then
                 (case progressProtocol n w protocol step context st1 of
                    None \<Rightarrow> None
                  | Some st2 \<Rightarrow>
                      Some (emit (StepExecuted (protocol_id protocol) (step_id step) True) st2))
               else Some (emit (StepExecuted (protocol_id protocol) (step_id step) False) st1)))"
| "progressProtocol n w protocol currentStep context st =
     executeSteps n w protocol (nextSteps currentStep) context
       (set_active (protocol_id protocol) (updatedSteps protocol currentStep st) st)"
| "executeSteps n w protocol [] context st = Some st"
| "executeSteps n w protocol (i # ids) context st =
     (case find_step protocol i of
        None \<Rightarrow> executeSteps n w protocol ids context st
      | Some step \<Rightarrow>
          (case executeProtocolStep n w protocol step context st of
             None \<Rightarrow> None
           | Some st' \<Rightarrow> executeSteps n w protocol ids context st'))"

subsection \<open>Activation, deactivation and re-evaluation\<close>

definition activateProtocol ::
  "nat \<Rightarrow> world \<Rightarrow> string \<Rightarrow> ProtocolContext \<Rightarrow> engine \<Rightarrow> (error option \<times> engine) option" where
  "activateProtocol n w protocolId context st =
     (case protocols st protocolId of
        None \<Rightarrow> Some (Some (ProtocolNotFound protocolId), st)
      | Some protocol \<Rightarrow>
          (case every_condition (now w) (conditions protocol) context of
             Inl e \<Rightarrow> Some (Some e, st)
           | Inr conditionsMet \<Rightarrow>
               if \<not> conditionsMet then Some (Some (ConditionsNotMet protocolId), st)
               else
                 (case steps protocol of
                    [] \<Rightarrow> Some (Some TypeError, st)
                  | step0 # rest \<Rightarrow>
                      (case executeProtocolStep n w protocol step0 context
                              (set_active protocolId [step_id step0] st) of
                         None \<Rightarrow> None
                       | Some st' \<Rightarrow>
                           Some (None, emit (ProtocolActivated protocolId (step_id step0)) st')))))"

definition deactivateProtocol :: "string \<Rightarrow> engine \<Rightarrow> engine" where
  "deactivateProtocol protocolId st =
     emit (ProtocolDeactivated protocolId)
       (st\<lparr>activeProtocols := AList.delete protocolId (activeProtocols st)\<rparr>)"

text \<open>The context of a re-evaluation, \<^verbatim>\<open>{...situationUpdate, activeSteps}\<close>.\<close>

definition update_context :: "jsval \<Rightarrow> string list \<Rightarrow> ProtocolContext" where
  "update_context situationUpdate ids =
     \<lparr>environmental = js_get situationUpdate ''environmental'',
      tactical = js_get situationUpdate ''tactical'',
      activeSteps = Some ids\<rparr>"

text \<open>
  The body of the loop of \<^verbatim>\<open>evaluateProtocols\<close> for one entry of \<^verbatim>\<open>activeProtocols\<close>, and
  the loop. The loop walks the keys present when it starts and reads each entry when it
  reaches it; the iterator of a \<^verbatim>\<open>Map\<close> is live, and visits the same entries as long as
  the body changes or deletes only the entry it is at, which it does when the registry
  holds each protocol under its own id. An error of a protocol-level condition leaves
  the loop: the promise of \<^verbatim>\<open>evaluateProtocols\<close> is rejected.
\<close>

definition evaluate_entry ::
  "nat \<Rightarrow> world \<Rightarrow> jsval \<Rightarrow> string \<Rightarrow> engine \<Rightarrow> (error option \<times> engine) option" where
  "evaluate_entry n w situationUpdate protocolId st =
     (case map_of (activeProtocols st) protocolId of
        None \<Rightarrow> Some (None, st)
      | Some ids \<Rightarrow>
          (case protocols st protocolId of
             None \<Rightarrow> Some (None, st)
           | Some protocol \<Rightarrow>
               (let context = update_context situationUpdate ids in
                case every_condition (now w) (conditions protocol) context of
                  Inl e \<Rightarrow> Some (Some e, st)
                | Inr conditionsMet \<Rightarrow>
                    if \<not> conditionsMet then Some (None, deactivateProtocol protocolId st)
                    else
                      (case executeSteps n w protocol ids context st of
                         None \<Rightarrow> None
                       | Some st' \<Rightarrow> Some (None, st')))))"

fun evaluate_entries ::
  "nat \<Rightarrow> world \<Rightarrow> jsval \<Rightarrow> string list \<Rightarrow> engine \<Rightarrow> (error option \<times> engine) option" where
  "evaluate_entries n w situationUpdate [] st = Some (None, st)"
| "evaluate_entries n w situationUpdate (k # ks) st =
     (case evaluate_entry n w situationUpdate k st of
        None \<Rightarrow> None
      | Some (Some e, st') \<Rightarrow> Some (Some e, st')
      | Some (None, st') \<Rightarrow> evaluate_entries n w situationUpdate ks st')"

definition evaluateProtocols ::
  "nat \<Rightarrow> world \<Rightarrow> jsval \<Rightarrow> engine \<Rightarrow> (error option \<times> engine) option" where
  "evaluateProtocols n w situationUpdate st =
     evaluate_entries n w situationUpdate (map fst (activeProtocols st)) st"

subsection \<open>The spec's error taxonomy and the traces\<close>

text \<open>The two errors of \<^verbatim>\<open>validateProtocol\<close> are the structural ones.\<close>

fun StructuralError :: "error \<Rightarrow> bool" where
  "StructuralError (EmptyProtocol p) = True"
| "StructuralError (InvalidStepReference i p) = True"
| "StructuralError e = False"


text \<open>The step a notification of \<^verbatim>\<open>executeProtocolStep\<close> is about.\<close>

fun step_event :: "string \<Rightarrow> string \<Rightarrow> event \<Rightarrow> bool" where
  "step_event p i (StepExecuted q j b) = (p = q \<and> i = j)"
| "step_event p i (StepError q j e) = (p = q \<and> i = j)"
| "step_event p i ev = False"

text \<open>The protocol a notification is about.\<close>

fun event_protocol :: "event \<Rightarrow> string" where
  "event_protocol (ProtocolLoaded p nm) = p"
| "event_protocol (ProtocolActivated p i) = p"
| "event_protocol (ProtocolDeactivated p) = p"
| "event_protocol (StepExecuted p i b) = p"
| "event_protocol (StepError p i e) = p"

text \<open>The entry of a protocol in \<^verbatim>\<open>activeProtocols\<close>.\<close>

definition active_entry :: "engine \<Rightarrow> string \<Rightarrow> string list option" where
  "active_entry st protocolId = map_of (activeProtocols st) protocolId"


subsection \<open>Reachable states\<close>

text \<open>
  The states the engine reaches from its constructor through its public operations and
  its handler of \<^verbatim>\<open>situation:updated\<close> events, each run in any world and to its end.
  The private \<^verbatim>\<open>deactivateProtocol\<close> is counted too, for any id.
\<close>

inductive reachable :: "engine \<Rightarrow> bool" where
  initial: "reachable initial_engine"
| load: "reachable st \<Longrightarrow> loadProtocol protocol st = (r, st') \<Longrightarrow> reachable st'"
| activate:
    "reachable st \<Longrightarrow> activateProtocol n w protocolId context st = Some (r, st') \<Longrightarrow> reachable st'"
| evaluate:
    "reachable st \<Longrightarrow> evaluateProtocols n w situationUpdate st = Some (r, st') \<Longrightarrow> reachable st'"
| deactivate: "reachable st \<Longrightarrow> reachable (deactivateProtocol protocolId st)"

text \<open>
  What holds of every reachable state: an active protocol is registered, the registry
  holds validated protocols under their own ids, and \<^verbatim>\<open>activeProtocols\<close> has one entry
  per key, as a \<^verbatim>\<open>Map\<close> has.
\<close>

definition well_formed :: "engine \<Rightarrow> bool" where
  "well_formed st \<longleftrightarrow>
     (\<forall>k. active_entry st k \<noteq> None \<longrightarrow> protocols st k \<noteq> None)
     \<and> (\<forall>k P. protocols st k = Some P \<longrightarrow> protocol_id P = k \<and> validateProtocol P = None)
     \<and> distinct (map fst (activeProtocols st))"

subsection \<open>Example inputs\<close>

text \<open>A world whose tactical core serves every call, as the one of the repository does.\<close>

definition quiet_world :: world where
  "quiet_world = \<lparr>now = 1700000000000, core_throws = (\<lambda>cs c. False)\<rparr>"






text \<open>The protocol \<^verbatim>\<open>TonyCore\<close> loads at start-up; \<^verbatim>\<open>executeAction\<close> knows neither of its
  actions.\<close>

definition init_comm :: ProtocolStep where
  "init_comm =
     \<lparr>step_id = ''init-comm'', action = ''establish_communication'',
      parameters = [(''mode'', JStr ''secure'')],
      nextSteps = [''confirm-receipt''], completionCriteria = None\<rparr>"

definition confirm_receipt :: ProtocolStep where
  "confirm_receipt =
     \<lparr>step_id = ''confirm-receipt'', action = ''verify_transmission'',
      parameters = [(''requireAck'', JBool True)],
      nextSteps = [], completionCriteria = None\<rparr>"

definition roger_roger :: Protocol where
  "roger_roger =
     \<lparr>protocol_id = ''roger-roger'', protocol_name = ''Roger Roger Protocol'',
      protocol_type = Standard, steps = [init_comm, confirm_receipt], conditions = []\<rparr>"

text \<open>A second definition under the same id, with one step of another name.\<close>

definition roger_roger_v2 :: Protocol where
  "roger_roger_v2 =
     \<lparr>protocol_id = ''roger-roger'', protocol_name = ''Roger Roger Protocol'',
      protocol_type = Standard,
      steps =
        [\<lparr>step_id = ''handshake'', action = ''mark_location'', parameters = [],
          nextSteps = [], completionCriteria = None\<rparr>],
      conditions = []\<rparr>"


text \<open>A step with two successors, and a step that is its own successor.\<close>

definition fan_root :: ProtocolStep where
  "fan_root =
     \<lparr>step_id = ''s0'', action = ''update_situation'', parameters = [],
      nextSteps = [''a'', ''b''], completionCriteria = None\<rparr>"

definition fan_a :: ProtocolStep where
  "fan_a =
     \<lparr>step_id = ''a'', action = ''mark_location'', parameters = [],
      nextSteps = [], completionCriteria = None\<rparr>"

definition fan_b :: ProtocolStep where
  "fan_b =
     \<lparr>step_id = ''b'', action = ''mark_location'', parameters = [],
      nextSteps = [], completionCriteria = None\<rparr>"

definition example_fanout :: Protocol where
  "example_fanout =
     \<lparr>protocol_id = ''f1'', protocol_name = ''f1'', protocol_type = Custom,
      steps = [fan_root, fan_a, fan_b], conditions = []\<rparr>"

text \<open>The engine with the two successors active, before and after the first of them
  has marked its location in the quiet world.\<close>

definition fan_started :: engine where
  "fan_started =
     \<lparr>protocols = Map.empty, activeProtocols = [(''f1'', [''a'', ''b''])], emitted = [],
      core_calls = []\<rparr>"

definition fan_marked :: engine where
  "fan_marked =
     \<lparr>protocols = Map.empty, activeProtocols = [(''f1'', [''a'', ''b''])], emitted = [],
      core_calls = [AddTacticalElement ''operations'' JUndefined JUndefined 1700000000000]\<rparr>"

definition loop_step :: ProtocolStep where
  "loop_step =
     \<lparr>step_id = ''again'', action = ''mark_location'', parameters = [],
      nextSteps = [''again''], completionCriteria = None\<rparr>"

definition example_loop :: Protocol where
  "example_loop =
     \<lparr>protocol_id = ''l1'', protocol_name = ''l1'', protocol_type = Custom,
      steps = [loop_step], conditions = []\<rparr>"

text \<open>A protocol with a successor that names no step, and one with no step.\<close>

definition example_dangling :: Protocol where
  "example_dangling =
     \<lparr>protocol_id = ''p2'', protocol_name = ''p2'', protocol_type = Custom,
      steps =
        [\<lparr>step_id = ''s1'', action = ''mark_location'', parameters = [],
          nextSteps = [''s9''], completionCriteria = None\<rparr>],
      conditions = []\<rparr>"

definition example_empty :: Protocol where
  "example_empty =
     \<lparr>protocol_id = ''p3'', protocol_name = ''p3'', protocol_type = Custom,
      steps = [], conditions = []\<rparr>"

text \<open>The condition and the contexts of the spec's second example.\<close>

definition threat_above_5 :: ProtocolCondition where
  "threat_above_5 = \<lparr>cond_type = Tactical, operator = Greater, cond_value = JNum 5\<rparr>"

definition threat_context :: "nat \<Rightarrow> int \<Rightarrow> ProtocolContext" where
  "threat_context a k = empty_context\<lparr>tactical := JObj a [(''threat'', JNum k)]\<rparr>"

text \<open>A protocol that activates only while no environmental data is supplied, and whose
  single step waits for a tactical value that never comes.\<close>

definition example_guarded :: Protocol where
  "example_guarded =
     \<lparr>protocol_id = ''g1'', protocol_name = ''g1'', protocol_type = Emergency,
      steps =
        [\<lparr>step_id = ''s1'', action = ''mark_location'', parameters = [],
          nextSteps = [],
          completionCriteria =
            Some [\<lparr>cond_type = Tactical, operator = Equals, cond_value = JNull\<rparr>]\<rparr>],
      conditions =
        [\<lparr>cond_type = Environmental, operator = Equals, cond_value = JUndefined\<rparr>]\<rparr>"

text \<open>The engine after that protocol was loaded and activated in the empty context of
  the quiet world, and a context that supplies environmental data.\<close>

definition guarded_active :: engine where
  "guarded_active =
     \<lparr>protocols = [''g1'' \<mapsto> example_guarded],
      activeProtocols = [(''g1'', [''s1''])],
      emitted =
        [ProtocolLoaded ''g1'' ''g1'', StepExecuted ''g1'' ''s1'' False,
         ProtocolActivated ''g1'' ''s1''],
      core_calls = [AddTacticalElement ''operations'' JUndefined JUndefined 1700000000000]\<rparr>"

definition weather_context :: ProtocolContext where
  "weather_context = empty_context\<lparr>environmental := JObj 0 [(''wind'', JNum 3)]\<rparr>"

text \<open>A protocol whose second condition is false in every context, and a context whose
  tactical record has an own property \<^verbatim>\<open>toString\<close>.\<close>

definition example_two_conditions :: Protocol where
  "example_two_conditions =
     \<lparr>protocol_id = ''g2'', protocol_name = ''g2'', protocol_type = Emergency,
      steps =
        [\<lparr>step_id = ''s1'', action = ''mark_location'', parameters = [],
          nextSteps = [], completionCriteria = None\<rparr>],
      conditions =
        [threat_above_5,
         \<lparr>cond_type = Temporal, operator = Equals, cond_value = JNull\<rparr>]\<rparr>"

definition shadowing_context :: ProtocolContext where
  "shadowing_context = empty_context\<lparr>tactical := JObj 0 [(''toString'', JNum 0)]\<rparr>"

section \<open>Conditions\<close>

lemma object_string_nan: "string_to_number ''[object Object]'' = NaN"
  by (simp add: string_to_number_def trim_def is_space_def signed_decimal_def
      unsigned_decimal_def is_digit_def digit_of_def)

lemma record_greater_number:
  "''toString'' \<notin> fst ` set fs \<Longrightarrow> js_greater (JObj a fs) (JNum k) = Inr False"
  by (simp add: js_greater_def is_less_than_def object_string_nan)

lemma undefined_greater:
  "js_greater JUndefined v = (case to_primitive v of Inl e \<Rightarrow> Inl e | Inr p \<Rightarrow> Inr False)"
  by (cases "to_primitive v")
    (auto simp: js_greater_def is_less_than_def split: sum.splits jsprim.splits
      elim: number_less.elims)

text \<open>
  C5, amended. The condition \<^verbatim>\<open>{type: "tactical", operator: "greater", value: 5}\<close> is
  false, and raises nothing, against the context \<^verbatim>\<open>{tactical: {threat: 3}}\<close>, against
  \<^verbatim>\<open>{tactical: {threat: 9}}\<close> and against \<^verbatim>\<open>{}\<close>, at any time and wherever the record
  lives: the whole tactical record is compared with the number, and as a number a record
  is \<^verbatim>\<open>NaN\<close>.
\<close>

theorem evaluateCondition_threat_examples:
  "evaluateCondition t threat_above_5 (threat_context a 3) = Inr False
   \<and> evaluateCondition t threat_above_5 (threat_context a 9) = Inr False
   \<and> evaluateCondition t threat_above_5 empty_context = Inr False"
  by (simp add: evaluateCondition_def getContextValue_def threat_above_5_def
      threat_context_def empty_context_def record_greater_number undefined_greater)

theorem evaluateCondition_threat_9_is_false:
  "evaluateCondition 0 threat_above_5 (threat_context 0 9) = Inr False"
  by (simp add: evaluateCondition_def getContextValue_def threat_above_5_def
      threat_context_def empty_context_def record_greater_number)

lemma js_to_string_error:
  "js_to_string v = Inl e \<Longrightarrow> e = TypeError"
  "js_join vs = Inl e \<Longrightarrow> e = TypeError"
  by (induct v and vs rule: js_to_string_js_join.induct)
    (auto split: if_splits sum.splits)

lemma to_primitive_error: "to_primitive v = Inl e \<Longrightarrow> e = TypeError"
  by (cases v) (auto split: sum.splits if_splits dest: js_to_string_error)

lemma evaluateCondition_error: "evaluateCondition t c ctx = Inl e \<Longrightarrow> e = TypeError"
  by (auto simp: evaluateCondition_def Let_def js_greater_def js_less_def is_less_than_def
      split: condition_operator.splits sum.splits dest: to_primitive_error)

lemma every_condition_error: "every_condition t cs ctx = Inl e \<Longrightarrow> e = TypeError"
  by (induct cs) (auto split: sum.splits if_splits dest: evaluateCondition_error)

lemma every_condition_True:
  "every_condition t cs ctx = Inr True \<longleftrightarrow> (\<forall>c\<in>set cs. evaluateCondition t c ctx = Inr True)"
  by (induct cs) (auto split: sum.splits)

lemma every_condition_False:
  assumes "\<exists>c\<in>set cs. evaluateCondition t c ctx = Inr False"
    and "\<forall>c\<in>set cs. \<forall>e. evaluateCondition t c ctx \<noteq> Inl e"
  shows "every_condition t cs ctx = Inr False"
  using assms
proof (induct cs)
  case Nil
  then show ?case by simp
next
  case (Cons c cs)
  show ?case
  proof (cases "evaluateCondition t c ctx")
    case (Inl e)
    with Cons.prems show ?thesis by simp
  next
    case (Inr b)
    with Cons show ?thesis by (cases b) auto
  qed
qed

section \<open>Validation\<close>

lemma find_case_None:
  "(case find p xs of None \<Rightarrow> None | Some x \<Rightarrow> Some (f x)) = None \<longleftrightarrow> (\<forall>x\<in>set xs. \<not> p x)"
proof (cases "find p xs")
  case None
  then have "\<forall>x\<in>set xs. \<not> p x" by (simp add: find_None_iff)
  then show ?thesis by (simp add: None)
next
  case (Some a)
  then have "p a" "a \<in> set xs" by (auto simp: find_Some_iff)
  with Some show ?thesis by auto
qed

lemma validateProtocol_None:
  "validateProtocol P = None \<longleftrightarrow>
     steps P \<noteq> [] \<and> (\<forall>s\<in>set (steps P). \<forall>i\<in>set (nextSteps s). i \<in> step_id ` set (steps P))"
  unfolding validateProtocol_def Let_def by (auto simp: find_case_None)

lemma validateProtocol_structural: "validateProtocol P = Some e \<Longrightarrow> StructuralError e"
  by (auto simp: validateProtocol_def Let_def split: if_splits option.splits)

section \<open>Executing steps\<close>

text \<open>Whatever relates a state to itself, composes, and holds across a notification
  about a step of the protocol, a call to the tactical core and an update of the
  protocol's own entry, holds across the execution of a step and everything it
  progresses to.\<close>

lemma executeAction_cases:
  "executeAction w a ps ctx st = (r, st1) \<Longrightarrow>
     st1 = st \<or> (\<exists>c. st1 = st\<lparr>core_calls := core_calls st @ [c]\<rparr>)"
  by (auto simp: executeAction_def call_core_def split: if_splits)

lemma executeAction_unknown:
  "act \<noteq> ''mark_location'' \<Longrightarrow> act \<noteq> ''update_situation'' \<Longrightarrow>
     executeAction w act ps ctx st = (Some (UnknownAction act), st)"
  by (simp add: executeAction_def)

lemma executeAction_frame:
  "executeAction w act ps ctx st = (r, st1) \<Longrightarrow>
     activeProtocols st1 = activeProtocols st \<and> protocols st1 = protocols st
     \<and> emitted st1 = emitted st"
  by (auto dest: executeAction_cases)

lemma run_related:
  assumes refl: "\<And>s. R s s"
    and trans: "\<And>a b c. R a b \<Longrightarrow> R b c \<Longrightarrow> R a c"
    and emits: "\<And>i b s. R s (emit (StepExecuted p i b) s)"
      "\<And>i e s. R s (emit (StepError p i e) s)"
    and calls: "\<And>c s. R s (s\<lparr>core_calls := core_calls s @ [c]\<rparr>)"
    and sets: "\<And>ids s. R s (set_active p ids s)"
  shows "protocol_id P = p \<Longrightarrow> executeProtocolStep n w P step ctx st = Some st' \<Longrightarrow> R st st'"
    and "protocol_id P = p \<Longrightarrow> progressProtocol n w P step ctx st = Some st' \<Longrightarrow> R st st'"
    and "protocol_id P = p \<Longrightarrow> executeSteps n w P ids ctx st = Some st' \<Longrightarrow> R st st'"
proof (induct n w P step ctx st and n w P step ctx st and n w P ids ctx st
    arbitrary: st' and st' and st'
    rule: executeProtocolStep_progressProtocol_executeSteps.induct)
  case (1 w P step ctx st)
  then show ?case by simp
next
  case (2 n w P step ctx st)
  from "2.prems"(1) emits
  have em: "\<And>i b s. R s (emit (StepExecuted (protocol_id P) i b) s)"
    "\<And>i e s. R s (emit (StepError (protocol_id P) i e) s)"
    by simp_all
  show ?case
  proof (cases "executeAction w (action step) (parameters step) ctx st")
    case (Pair r st1)
    from executeAction_cases [OF Pair] have a: "R st st1"
      by (auto intro: refl calls)
    show ?thesis
    proof (cases r)
      case (Some e)
      with Pair "2.prems" a show ?thesis
        by (auto intro: trans em)
    next
      case None
      show ?thesis
      proof (cases "isComplete (now w) step ctx")
        case (Inl e)
        with Pair None "2.prems" a show ?thesis
          by (auto intro: trans em)
      next
        case (Inr b)
        show ?thesis
        proof (cases b)
          case True
          with Pair None Inr "2.prems" obtain st2 where
            p: "progressProtocol n w P step ctx st1 = Some st2"
            and e: "st' = emit (StepExecuted (protocol_id P) (step_id step) True) st2"
            by (auto split: option.splits)
          from "2.hyps" [OF Pair [symmetric] None Inr True "2.prems"(1) p] have "R st1 st2" .
          with a e show ?thesis
            by (auto intro: trans em)
        next
          case False
          with Pair None Inr "2.prems" a show ?thesis
            by (auto intro: trans em)
        qed
      qed
    qed
  qed
next
  case (3 n w P currentStep ctx st)
  from "3.prems" have "R (set_active p (updatedSteps P currentStep st) st) st'"
    using "3.hyps" by simp
  with sets show ?case
    by (rule trans)
next
  case (4 n w P ctx st)
  then show ?case by (simp add: refl)
next
  case (5 n w P i ids ctx st)
  show ?case
  proof (cases "find_step P i")
    case None
    with 5 show ?thesis by simp
  next
    case (Some s)
    with "5.prems" obtain st1 where
      x: "executeProtocolStep n w P s ctx st = Some st1"
      and r: "executeSteps n w P ids ctx st1 = Some st'"
      by (auto split: option.splits)
    from "5.hyps"(2) [OF Some "5.prems"(1) x] "5.hyps"(3) [OF Some x "5.prems"(1) r] show ?thesis
      by (rule trans)
  qed
qed

lemma run_protocols:
  "executeProtocolStep n w P step ctx st = Some st' \<Longrightarrow> protocols st' = protocols st"
  "progressProtocol n w P step ctx st = Some st' \<Longrightarrow> protocols st' = protocols st"
  "executeSteps n w P ids ctx st = Some st' \<Longrightarrow> protocols st' = protocols st"
  by (rule run_related [where R = "\<lambda>a b. protocols b = protocols a" and p = "protocol_id P"];
      simp add: emit_def set_active_def)+


lemma run_others:
  "executeProtocolStep n w P step ctx st = Some st' \<Longrightarrow>
     \<forall>k. k \<noteq> protocol_id P \<longrightarrow> active_entry st' k = active_entry st k"
  "progressProtocol n w P step ctx st = Some st' \<Longrightarrow>
     \<forall>k. k \<noteq> protocol_id P \<longrightarrow> active_entry st' k = active_entry st k"
  "executeSteps n w P ids ctx st = Some st' \<Longrightarrow>
     \<forall>k. k \<noteq> protocol_id P \<longrightarrow> active_entry st' k = active_entry st k"
  by (rule run_related [where R = "\<lambda>a b. \<forall>k. k \<noteq> protocol_id P \<longrightarrow> active_entry b k = active_entry a k"
        and p = "protocol_id P"];
      simp add: emit_def set_active_def active_entry_def update_conv')+





lemma find_step_id: "find_step P i = Some s \<Longrightarrow> step_id s = i \<and> s \<in> set (steps P)"
  by (auto simp: find_step_def find_Some_iff)

text \<open>
  C3. A step whose action was dispatched and whose completion criteria hold is progressed.
  Progression sets the protocol's active steps to the old ones without the completed
  step's id, followed by all of its \<^verbatim>\<open>nextSteps\<close>, and then starts the successors. For
  successors \<^verbatim>\<open>[a, b]\<close> that name steps it starts the step of \<^verbatim>\<open>a\<close>, once, and then the
  step of \<^verbatim>\<open>b\<close>, once, and nothing else. With no successor nothing is started: the
  completed step has left the active steps and nothing has replaced it.
\<close>

theorem progressProtocol_frontier:
  "(\<forall>st0. executeAction w (action cur) (parameters cur) ctx st0 = (None, st)
        \<and> isComplete (now w) cur ctx = Inr True \<longrightarrow>
      executeProtocolStep (Suc n) w P cur ctx st0 =
        map_option (emit (StepExecuted (protocol_id P) (step_id cur) True))
          (progressProtocol n w P cur ctx st))
   \<and> set (updatedSteps P cur st) =
     (set (case active_entry st (protocol_id P) of None \<Rightarrow> [] | Some ids \<Rightarrow> ids) - {step_id cur})
       \<union> set (nextSteps cur)
   \<and> active_entry (set_active (protocol_id P) (updatedSteps P cur st) st) (protocol_id P) =
        Some (updatedSteps P cur st)
   \<and> progressProtocol n w P cur ctx st =
        executeSteps n w P (nextSteps cur) ctx
          (set_active (protocol_id P) (updatedSteps P cur st) st)
   \<and> (\<forall>a b sa sb.
         nextSteps cur = [a, b] \<and> find_step P a = Some sa \<and> find_step P b = Some sb \<longrightarrow>
           step_id sa = a \<and> step_id sb = b
           \<and> progressProtocol n w P cur ctx st =
               Option.bind
                 (executeProtocolStep n w P sa ctx
                    (set_active (protocol_id P) (updatedSteps P cur st) st))
                 (executeProtocolStep n w P sb ctx))
   \<and> (nextSteps cur = [] \<longrightarrow>
         progressProtocol n w P cur ctx st =
           Some (set_active (protocol_id P) (updatedSteps P cur st) st)
         \<and> step_id cur \<notin> set (updatedSteps P cur st)
         \<and> set (updatedSteps P cur st) \<subseteq>
             set (case active_entry st (protocol_id P) of None \<Rightarrow> [] | Some ids \<Rightarrow> ids))"
proof -
  have 0: "\<forall>st0. executeAction w (action cur) (parameters cur) ctx st0 = (None, st)
        \<and> isComplete (now w) cur ctx = Inr True \<longrightarrow>
      executeProtocolStep (Suc n) w P cur ctx st0 =
        map_option (emit (StepExecuted (protocol_id P) (step_id cur) True))
          (progressProtocol n w P cur ctx st)"
    by (auto split: option.splits)
  have 1: "set (updatedSteps P cur st) =
     (set (case active_entry st (protocol_id P) of None \<Rightarrow> [] | Some ids \<Rightarrow> ids) - {step_id cur})
       \<union> set (nextSteps cur)"
    by (auto simp: updatedSteps_def active_entry_def)
  have 2: "active_entry (set_active (protocol_id P) (updatedSteps P cur st) st) (protocol_id P) =
        Some (updatedSteps P cur st)"
    by (simp add: active_entry_def set_active_def update_conv')
  have 4: "step_id sa = a \<and> step_id sb = b
           \<and> progressProtocol n w P cur ctx st =
               Option.bind
                 (executeProtocolStep n w P sa ctx
                    (set_active (protocol_id P) (updatedSteps P cur st) st))
                 (executeProtocolStep n w P sb ctx)"
    if "nextSteps cur = [a, b]" "find_step P a = Some sa" "find_step P b = Some sb" for a b sa sb
    using that by (auto simp: find_step_id split: option.splits Option.bind_splits)
  have 5: "nextSteps cur = [] \<Longrightarrow> step_id cur \<notin> set (updatedSteps P cur st)"
    using 1 by simp
  have 6: "nextSteps cur = [] \<Longrightarrow> set (updatedSteps P cur st) \<subseteq>
             set (case active_entry st (protocol_id P) of None \<Rightarrow> [] | Some ids \<Rightarrow> ids)"
    using 1 by auto
  have 3: "progressProtocol n w P cur ctx st =
        executeSteps n w P (nextSteps cur) ctx
          (set_active (protocol_id P) (updatedSteps P cur st) st)"
    by simp
  have 7: "nextSteps cur = [] \<Longrightarrow> progressProtocol n w P cur ctx st =
           Some (set_active (protocol_id P) (updatedSteps P cur st) st)"
    by simp
  show ?thesis
    using 0 1 2 3 4 5 6 7 by blast
qed

theorem progressProtocol_frontier_witness:
  "nextSteps fan_root = [''a'', ''b'']
   \<and> find_step example_fanout ''a'' = Some fan_a
   \<and> find_step example_fanout ''b'' = Some fan_b
   \<and> updatedSteps example_fanout fan_root (set_active ''f1'' [''s0''] initial_engine) = [''a'', ''b'']
   \<and> progressProtocol 1 quiet_world example_fanout fan_root empty_context
        (set_active ''f1'' [''s0''] initial_engine) =
       Option.bind
         (executeProtocolStep 1 quiet_world example_fanout fan_a empty_context
            (set_active ''f1'' [''a'', ''b''] (set_active ''f1'' [''s0''] initial_engine)))
         (executeProtocolStep 1 quiet_world example_fanout fan_b empty_context)
   \<and> nextSteps fan_a = []
   \<and> executeAction quiet_world (action fan_a) (parameters fan_a) empty_context fan_started =
       (None, fan_marked)
   \<and> isComplete (now quiet_world) fan_a empty_context = Inr True
   \<and> updatedSteps example_fanout fan_a fan_marked = [''b'']
   \<and> progressProtocol 0 quiet_world example_fanout fan_a empty_context fan_marked =
       Some (set_active ''f1'' [''b''] fan_marked)
   \<and> executeProtocolStep 1 quiet_world example_fanout fan_a empty_context fan_started =
       Some (emit (StepExecuted ''f1'' ''a'' True) (set_active ''f1'' [''b''] fan_marked))"
proof -
  have n: "nextSteps fan_root = [''a'', ''b'']" "nextSteps fan_a = []"
    by (simp_all add: fan_root_def fan_a_def)
  have i: "protocol_id example_fanout = ''f1''" "step_id fan_a = ''a''"
    by (simp_all add: example_fanout_def fan_a_def)
  have f: "find_step example_fanout ''a'' = Some fan_a" "find_step example_fanout ''b'' = Some fan_b"
    by (simp_all add: find_step_def example_fanout_def fan_root_def fan_a_def fan_b_def)
  have u: "updatedSteps example_fanout fan_root (set_active ''f1'' [''s0''] initial_engine) = [''a'', ''b'']"
    "updatedSteps example_fanout fan_a fan_marked = [''b'']"
    by (simp_all add: updatedSteps_def set_active_def initial_engine_def fan_marked_def i n
        fan_root_def)
  have a: "executeAction quiet_world (action fan_a) (parameters fan_a) empty_context fan_started =
       (None, fan_marked)"
    by (simp add: executeAction_def call_core_def fan_a_def quiet_world_def js_prop_def
        fan_started_def fan_marked_def)
  have c: "isComplete (now quiet_world) fan_a empty_context = Inr True"
    by (simp add: isComplete_def fan_a_def)
  note t1 = progressProtocol_frontier [where P = example_fanout and cur = fan_root
      and st = "set_active ''f1'' [''s0''] initial_engine" and n = 1 and w = quiet_world
      and ctx = empty_context]
  from t1 n f
  have p: "progressProtocol 1 quiet_world example_fanout fan_root empty_context
        (set_active ''f1'' [''s0''] initial_engine) =
       Option.bind
         (executeProtocolStep 1 quiet_world example_fanout fan_a empty_context
            (set_active ''f1'' [''a'', ''b''] (set_active ''f1'' [''s0''] initial_engine)))
         (executeProtocolStep 1 quiet_world example_fanout fan_b empty_context)"
    unfolding u i by blast
  note t2 = progressProtocol_frontier [where P = example_fanout and cur = fan_a
      and st = fan_marked and n = 0 and w = quiet_world and ctx = empty_context]
  from t2 n
  have q: "progressProtocol 0 quiet_world example_fanout fan_a empty_context fan_marked =
       Some (set_active ''f1'' [''b''] fan_marked)"
    unfolding u i by blast
  from t2 a c
  have "executeProtocolStep (Suc 0) quiet_world example_fanout fan_a empty_context fan_started =
       map_option (emit (StepExecuted (protocol_id example_fanout) (step_id fan_a) True))
         (progressProtocol 0 quiet_world example_fanout fan_a empty_context fan_marked)"
    by blast
  then have x: "executeProtocolStep 1 quiet_world example_fanout fan_a empty_context fan_started =
       Some (emit (StepExecuted ''f1'' ''a'' True) (set_active ''f1'' [''b''] fan_marked))"
    unfolding q i One_nat_def by simp
  from n f u p a c q x show ?thesis
    by blast
qed

text \<open>
  C6. An action name that \<^verbatim>\<open>executeAction\<close> does not know makes the dispatch fail. When
  the dispatch of a step fails, the execution of the step ends at once, for any bound on
  the depth, with one \<^verbatim>\<open>step:error\<close> notification that carries the error; the active
  protocols, the registry and the earlier notifications are as before, so the step's id
  stays where it was. The completion criteria and the successors play no part: the result
  is the same whatever they are. The steps started beside it are run all the same, an
  activation whose first step fails this way still succeeds, and a re-evaluation goes on
  to the other active protocols.
\<close>

theorem dispatch_failure_contained:
  "(action step \<noteq> ''mark_location'' \<and> action step \<noteq> ''update_situation'' \<longrightarrow>
      executeAction w (action step) (parameters step) ctx st =
        (Some (UnknownAction (action step)), st))
   \<and> (\<forall>e st1. executeAction w (action step) (parameters step) ctx st = (Some e, st1) \<longrightarrow>
         executeProtocolStep (Suc n) w P step ctx st =
           Some (emit (StepError (protocol_id P) (step_id step) e) st1)
         \<and> activeProtocols st1 = activeProtocols st
         \<and> protocols st1 = protocols st
         \<and> emitted st1 = emitted st
         \<and> (\<forall>cc ns. executeProtocolStep (Suc n) w P
                (step\<lparr>nextSteps := ns, completionCriteria := cc\<rparr>) ctx st =
              executeProtocolStep (Suc n) w P step ctx st)
         \<and> (\<forall>i ids. find_step P i = Some step \<longrightarrow>
               executeSteps (Suc n) w P (i # ids) ctx st =
                 executeSteps (Suc n) w P ids ctx
                   (emit (StepError (protocol_id P) (step_id step) e) st1)))
   \<and> (\<forall>e st1 rest.
         protocols st (protocol_id P) = Some P
         \<and> every_condition (now w) (conditions P) ctx = Inr True
         \<and> steps P = step # rest
         \<and> executeAction w (action step) (parameters step) ctx
              (set_active (protocol_id P) [step_id step] st) = (Some e, st1) \<longrightarrow>
           activateProtocol (Suc n) w (protocol_id P) ctx st =
             Some (None,
               emit (ProtocolActivated (protocol_id P) (step_id step))
                 (emit (StepError (protocol_id P) (step_id step) e) st1)))
   \<and> (\<forall>e st1 u k i ks.
         active_entry st k = Some [i] \<and> protocols st k = Some P
         \<and> every_condition (now w) (conditions P) (update_context u [i]) = Inr True
         \<and> find_step P i = Some step
         \<and> executeAction w (action step) (parameters step) (update_context u [i]) st =
              (Some e, st1) \<longrightarrow>
           evaluate_entries (Suc n) w u (k # ks) st =
             evaluate_entries (Suc n) w u ks
               (emit (StepError (protocol_id P) (step_id step) e) st1))"
proof -
  have a: "action step \<noteq> ''mark_location'' \<and> action step \<noteq> ''update_situation'' \<longrightarrow>
      executeAction w (action step) (parameters step) ctx st =
        (Some (UnknownAction (action step)), st)"
    by (simp add: executeAction_unknown)
  have b: "executeProtocolStep (Suc n) w P step ctx st' =
           Some (emit (StepError (protocol_id P) (step_id step) e) st1)"
    if "executeAction w (action step) (parameters step) ctx st' = (Some e, st1)" for e st1 st'
    using that by simp
  have c: "executeProtocolStep (Suc n) w P (step\<lparr>nextSteps := ns, completionCriteria := cc\<rparr>) ctx st =
              executeProtocolStep (Suc n) w P step ctx st"
    if "executeAction w (action step) (parameters step) ctx st = (Some e, st1)" for e st1 cc ns
    using that by simp
  have d: "executeSteps (Suc n) w P (i # ids) ctx st =
                 executeSteps (Suc n) w P ids ctx
                   (emit (StepError (protocol_id P) (step_id step) e) st1)"
    if "executeAction w (action step) (parameters step) ctx st = (Some e, st1)"
      "find_step P i = Some step" for e st1 i ids
    using that by simp
  have f: "activateProtocol (Suc n) w (protocol_id P) ctx st =
             Some (None,
               emit (ProtocolActivated (protocol_id P) (step_id step))
                 (emit (StepError (protocol_id P) (step_id step) e) st1))"
    if "protocols st (protocol_id P) = Some P"
      "every_condition (now w) (conditions P) ctx = Inr True"
      "steps P = step # rest"
      "executeAction w (action step) (parameters step) ctx
              (set_active (protocol_id P) [step_id step] st) = (Some e, st1)" for e st1 rest
    using that by (simp add: activateProtocol_def)
  have g: "activeProtocols st1 = activeProtocols st \<and> protocols st1 = protocols st
      \<and> emitted st1 = emitted st"
    if "executeAction w (action step) (parameters step) ctx st = (Some e, st1)" for e st1
    using that by (rule executeAction_frame)
  have part2: "\<forall>e st1. executeAction w (action step) (parameters step) ctx st = (Some e, st1) \<longrightarrow>
         executeProtocolStep (Suc n) w P step ctx st =
           Some (emit (StepError (protocol_id P) (step_id step) e) st1)
         \<and> activeProtocols st1 = activeProtocols st
         \<and> protocols st1 = protocols st
         \<and> emitted st1 = emitted st
         \<and> (\<forall>cc ns. executeProtocolStep (Suc n) w P
                (step\<lparr>nextSteps := ns, completionCriteria := cc\<rparr>) ctx st =
              executeProtocolStep (Suc n) w P step ctx st)
         \<and> (\<forall>i ids. find_step P i = Some step \<longrightarrow>
               executeSteps (Suc n) w P (i # ids) ctx st =
                 executeSteps (Suc n) w P ids ctx
                   (emit (StepError (protocol_id P) (step_id step) e) st1))"
    using b [of st] c d g by (intro allI impI conjI) blast+
  have part3: "\<forall>e st1 rest.
         protocols st (protocol_id P) = Some P
         \<and> every_condition (now w) (conditions P) ctx = Inr True
         \<and> steps P = step # rest
         \<and> executeAction w (action step) (parameters step) ctx
              (set_active (protocol_id P) [step_id step] st) = (Some e, st1) \<longrightarrow>
           activateProtocol (Suc n) w (protocol_id P) ctx st =
             Some (None,
               emit (ProtocolActivated (protocol_id P) (step_id step))
                 (emit (StepError (protocol_id P) (step_id step) e) st1))"
    using f by blast
  have part4: "\<forall>e st1 u k i ks.
         active_entry st k = Some [i] \<and> protocols st k = Some P
         \<and> every_condition (now w) (conditions P) (update_context u [i]) = Inr True
         \<and> find_step P i = Some step
         \<and> executeAction w (action step) (parameters step) (update_context u [i]) st =
              (Some e, st1) \<longrightarrow>
           evaluate_entries (Suc n) w u (k # ks) st =
             evaluate_entries (Suc n) w u ks
               (emit (StepError (protocol_id P) (step_id step) e) st1)"
    by (simp add: evaluate_entry_def active_entry_def)
  from a part2 part3 part4 show ?thesis
    by (intro conjI)
qed



theorem dispatch_failure_contained_witness:
  "action init_comm \<noteq> ''mark_location'' \<and> action init_comm \<noteq> ''update_situation''
   \<and> executeProtocolStep 1 quiet_world roger_roger init_comm empty_context
      (set_active ''roger-roger'' [''init-comm''] initial_engine) =
     Some (emit (StepError ''roger-roger'' ''init-comm'' (UnknownAction ''establish_communication''))
             (set_active ''roger-roger'' [''init-comm''] initial_engine))
   \<and> activateProtocol 1 quiet_world ''roger-roger'' empty_context
        (snd (loadProtocol roger_roger initial_engine)) =
       Some (None,
         emit (ProtocolActivated ''roger-roger'' ''init-comm'')
           (emit (StepError ''roger-roger'' ''init-comm'' (UnknownAction ''establish_communication''))
              (set_active ''roger-roger'' [''init-comm'']
                 (snd (loadProtocol roger_roger initial_engine)))))"
proof -
  let ?e = "UnknownAction ''establish_communication''"
  have v: "validateProtocol roger_roger = None"
    by (simp add: validateProtocol_def roger_roger_def init_comm_def confirm_receipt_def)
  have i: "protocol_id roger_roger = ''roger-roger''"
    and t: "steps roger_roger = init_comm # [confirm_receipt]"
    and c: "every_condition (now quiet_world) (conditions roger_roger) empty_context = Inr True"
    by (simp_all add: roger_roger_def)
  have l: "protocols (snd (loadProtocol roger_roger initial_engine)) (protocol_id roger_roger) =
      Some roger_roger"
    by (simp add: loadProtocol_def v emit_def)
  have s: "step_id init_comm = ''init-comm''"
    and a: "action init_comm = ''establish_communication''"
    by (simp_all add: init_comm_def)
  have u: "action init_comm \<noteq> ''mark_location'' \<and> action init_comm \<noteq> ''update_situation''"
    by (simp add: a)
  have x: "executeAction quiet_world (action init_comm) (parameters init_comm) empty_context st =
      (Some ?e, st)" for st
    using dispatch_failure_contained [of init_comm quiet_world empty_context st 0 roger_roger] u
    by (simp add: a)
  have 1: "executeProtocolStep (Suc 0) quiet_world roger_roger init_comm empty_context st =
      Some (emit (StepError (protocol_id roger_roger) (step_id init_comm) ?e) st)" for st
    using dispatch_failure_contained [of init_comm quiet_world empty_context st 0 roger_roger,
        THEN conjunct2, THEN conjunct1, rule_format, OF x, THEN conjunct1] .
  have 2: "activateProtocol (Suc 0) quiet_world (protocol_id roger_roger) empty_context
      (snd (loadProtocol roger_roger initial_engine)) =
     Some (None,
       emit (ProtocolActivated (protocol_id roger_roger) (step_id init_comm))
         (emit (StepError (protocol_id roger_roger) (step_id init_comm) ?e)
            (set_active (protocol_id roger_roger) [step_id init_comm]
               (snd (loadProtocol roger_roger initial_engine)))))"
    using dispatch_failure_contained [of init_comm quiet_world empty_context
        "snd (loadProtocol roger_roger initial_engine)" 0 roger_roger,
        THEN conjunct2, THEN conjunct2, THEN conjunct1, rule_format, of "[confirm_receipt]"] l c t x
    by blast
  from u 1 2 show ?thesis
    unfolding i s One_nat_def by blast
qed




section \<open>Activation\<close>

lemma load_guarded:
  "loadProtocol example_guarded initial_engine =
     (None, \<lparr>protocols = [''g1'' \<mapsto> example_guarded], activeProtocols = [],
              emitted = [ProtocolLoaded ''g1'' ''g1''], core_calls = []\<rparr>)"
  by (simp add: loadProtocol_def validateProtocol_def example_guarded_def emit_def
      initial_engine_def)

lemma activate_guarded:
  "activateProtocol 1 quiet_world ''g1'' empty_context
     \<lparr>protocols = [''g1'' \<mapsto> example_guarded], activeProtocols = [],
      emitted = [ProtocolLoaded ''g1'' ''g1''], core_calls = []\<rparr> = Some (None, guarded_active)"
  by (simp add: activateProtocol_def One_nat_def example_guarded_def evaluateCondition_def
      getContextValue_def empty_context_def executeAction_def call_core_def quiet_world_def
      isComplete_def emit_def set_active_def guarded_active_def js_prop_def)


lemma guarded_false_in_weather:
  "evaluateCondition (now quiet_world)
     \<lparr>cond_type = Environmental, operator = Equals, cond_value = JUndefined\<rparr> weather_context =
     Inr False"
  by (simp add: evaluateCondition_def getContextValue_def weather_context_def empty_context_def)

text \<open>
  C2, amended. Activating an id that is not in the registry fails with
  \<^verbatim>\<open>ProtocolNotFound\<close>. Activating a registered protocol with an activation condition
  that is false in the supplied context, and none that raises, fails with
  \<^verbatim>\<open>ConditionsNotMet\<close>. Both failures leave the engine as it was: no active entry is
  created, and an entry left by an earlier activation stays. On success the entry of the
  protocol is exactly the first declared step's id when that step starts to execute, with
  no notification emitted and no call made since the activation began.
\<close>

theorem activateProtocol_outcomes:
  "(protocols st pid = None \<longrightarrow>
      activateProtocol n w pid ctx st = Some (Some (ProtocolNotFound pid), st))
   \<and> (\<forall>P. protocols st pid = Some P
          \<and> (\<exists>c\<in>set (conditions P). evaluateCondition (now w) c ctx = Inr False)
          \<and> (\<forall>c\<in>set (conditions P). \<forall>e. evaluateCondition (now w) c ctx \<noteq> Inl e) \<longrightarrow>
        activateProtocol n w pid ctx st = Some (Some (ConditionsNotMet pid), st))
   \<and> (\<forall>st'. activateProtocol n w pid ctx st = Some (None, st') \<longrightarrow>
        (\<exists>P step0 rest st1.
           protocols st pid = Some P \<and> steps P = step0 # rest
           \<and> active_entry (set_active pid [step_id step0] st) pid = Some [step_id step0]
           \<and> emitted (set_active pid [step_id step0] st) = emitted st
           \<and> core_calls (set_active pid [step_id step0] st) = core_calls st
           \<and> executeProtocolStep n w P step0 ctx (set_active pid [step_id step0] st) = Some st1
           \<and> st' = emit (ProtocolActivated pid (step_id step0)) st1))"
proof -
  have a: "protocols st pid = None \<longrightarrow>
      activateProtocol n w pid ctx st = Some (Some (ProtocolNotFound pid), st)"
    by (simp add: activateProtocol_def)
  have b: "activateProtocol n w pid ctx st = Some (Some (ConditionsNotMet pid), st)"
    if "protocols st pid = Some P"
      "\<exists>c\<in>set (conditions P). evaluateCondition (now w) c ctx = Inr False"
      "\<forall>c\<in>set (conditions P). \<forall>e. evaluateCondition (now w) c ctx \<noteq> Inl e" for P
    using that(1) every_condition_False [OF that(2,3)]
    by (simp add: activateProtocol_def)
  have c: "\<exists>P step0 rest st1.
           protocols st pid = Some P \<and> steps P = step0 # rest
           \<and> active_entry (set_active pid [step_id step0] st) pid = Some [step_id step0]
           \<and> emitted (set_active pid [step_id step0] st) = emitted st
           \<and> core_calls (set_active pid [step_id step0] st) = core_calls st
           \<and> executeProtocolStep n w P step0 ctx (set_active pid [step_id step0] st) = Some st1
           \<and> st' = emit (ProtocolActivated pid (step_id step0)) st1"
    if "activateProtocol n w pid ctx st = Some (None, st')" for st'
    using that
    by (auto simp: activateProtocol_def active_entry_def set_active_def update_conv'
        split: option.splits sum.splits if_splits list.splits)
  from a b c show ?thesis
    by blast
qed

theorem activateProtocol_outcomes_witness:
  "protocols guarded_active ''g9'' = None
   \<and> activateProtocol 1 quiet_world ''g9'' empty_context guarded_active =
       Some (Some (ProtocolNotFound ''g9''), guarded_active)
   \<and> protocols guarded_active ''g1'' = Some example_guarded
   \<and> conditions example_guarded =
       [\<lparr>cond_type = Environmental, operator = Equals, cond_value = JUndefined\<rparr>]
   \<and> evaluateCondition (now quiet_world)
        \<lparr>cond_type = Environmental, operator = Equals, cond_value = JUndefined\<rparr>
        weather_context = Inr False
   \<and> activateProtocol 1 quiet_world ''g1'' weather_context guarded_active =
       Some (Some (ConditionsNotMet ''g1''), guarded_active)
   \<and> activateProtocol 1 quiet_world ''g1'' empty_context
        (snd (loadProtocol example_guarded initial_engine)) = Some (None, guarded_active)
   \<and> active_entry (set_active ''g1'' [''s1''] (snd (loadProtocol example_guarded initial_engine)))
        ''g1'' = Some [''s1'']"
proof -
  have n: "protocols guarded_active ''g9'' = None"
    and p: "protocols guarded_active ''g1'' = Some example_guarded"
    by (simp_all add: guarded_active_def)
  have c: "conditions example_guarded =
      [\<lparr>cond_type = Environmental, operator = Equals, cond_value = JUndefined\<rparr>]"
    by (simp add: example_guarded_def)
  have f: "\<exists>c\<in>set (conditions example_guarded).
         evaluateCondition (now quiet_world) c weather_context = Inr False"
    and r: "\<forall>c\<in>set (conditions example_guarded). \<forall>e.
         evaluateCondition (now quiet_world) c weather_context \<noteq> Inl e"
    by (simp_all add: c guarded_false_in_weather)
  have s: "activateProtocol 1 quiet_world ''g1'' empty_context
        (snd (loadProtocol example_guarded initial_engine)) = Some (None, guarded_active)"
    by (simp only: load_guarded snd_conv activate_guarded)
  have 1: "activateProtocol 1 quiet_world ''g9'' empty_context guarded_active =
       Some (Some (ProtocolNotFound ''g9''), guarded_active)"
    using activateProtocol_outcomes [of guarded_active "''g9''" 1 quiet_world empty_context] n
    by blast
  have 2: "activateProtocol 1 quiet_world ''g1'' weather_context guarded_active =
       Some (Some (ConditionsNotMet ''g1''), guarded_active)"
    using activateProtocol_outcomes [of guarded_active "''g1''" 1 quiet_world weather_context] p f r
    by blast
  from activateProtocol_outcomes [of "snd (loadProtocol example_guarded initial_engine)" "''g1''"
      1 quiet_world empty_context] s
  obtain P step0 rest where
    "protocols (snd (loadProtocol example_guarded initial_engine)) ''g1'' = Some P"
    "steps P = step0 # rest"
    "active_entry (set_active ''g1'' [step_id step0] (snd (loadProtocol example_guarded initial_engine)))
       ''g1'' = Some [step_id step0]"
    by blast
  moreover have "protocols (snd (loadProtocol example_guarded initial_engine)) ''g1'' =
      Some example_guarded"
    unfolding load_guarded by simp
  moreover have "step_id (hd (steps example_guarded)) = ''s1''"
    by (simp add: example_guarded_def)
  ultimately have 3: "active_entry (set_active ''g1'' [''s1''] (snd (loadProtocol example_guarded initial_engine)))
        ''g1'' = Some [''s1'']"
    by auto
  from n p c guarded_false_in_weather s 1 2 3 show ?thesis
    by blast
qed

theorem activateProtocol_refused_counterexample:
  "activateProtocol 1 quiet_world ''g1'' empty_context
      (snd (loadProtocol example_guarded initial_engine)) = Some (None, guarded_active)
   \<and> protocols guarded_active ''g1'' = Some example_guarded
   \<and> evaluateCondition (now quiet_world) (hd (conditions example_guarded)) weather_context =
       Inr False
   \<and> activateProtocol 1 quiet_world ''g1'' weather_context guarded_active =
       Some (Some (ConditionsNotMet ''g1''), guarded_active)
   \<and> active_entry guarded_active ''g1'' = Some [''s1'']
   \<and> protocols (snd (loadProtocol example_two_conditions initial_engine)) ''g2'' =
       Some example_two_conditions
   \<and> evaluateCondition (now quiet_world) (conditions example_two_conditions ! 1)
        shadowing_context = Inr False
   \<and> activateProtocol 1 quiet_world ''g2'' shadowing_context
        (snd (loadProtocol example_two_conditions initial_engine)) =
       Some (Some TypeError, snd (loadProtocol example_two_conditions initial_engine))"
proof -
  have 1: "activateProtocol 1 quiet_world ''g1'' empty_context
      (snd (loadProtocol example_guarded initial_engine)) = Some (None, guarded_active)"
    by (simp only: load_guarded snd_conv activate_guarded)
  have 2: "protocols guarded_active ''g1'' = Some example_guarded"
    by (simp add: guarded_active_def)
  have 3: "evaluateCondition (now quiet_world) (hd (conditions example_guarded)) weather_context =
       Inr False"
    by (simp add: example_guarded_def guarded_false_in_weather)
  have 4: "activateProtocol 1 quiet_world ''g1'' weather_context guarded_active =
       Some (Some (ConditionsNotMet ''g1''), guarded_active)"
    using 2 guarded_false_in_weather
    by (simp add: activateProtocol_def example_guarded_def)
  have 5: "active_entry guarded_active ''g1'' = Some [''s1'']"
    by (simp add: active_entry_def guarded_active_def)
  have v: "validateProtocol example_two_conditions = None"
    by (simp add: validateProtocol_def example_two_conditions_def)
  have i2: "protocol_id example_two_conditions = ''g2''"
    by (simp add: example_two_conditions_def)
  have 6: "protocols (snd (loadProtocol example_two_conditions initial_engine)) ''g2'' =
       Some example_two_conditions"
    using v by (simp add: loadProtocol_def emit_def i2)
  have 7: "evaluateCondition (now quiet_world) (conditions example_two_conditions ! 1)
        shadowing_context = Inr False"
    by (simp add: example_two_conditions_def evaluateCondition_def getContextValue_def)
  have t: "evaluateCondition t threat_above_5 shadowing_context = Inl TypeError" for t
    by (simp add: evaluateCondition_def getContextValue_def threat_above_5_def
        shadowing_context_def empty_context_def js_greater_def is_less_than_def)
  have 8: "activateProtocol 1 quiet_world ''g2'' shadowing_context
        (snd (loadProtocol example_two_conditions initial_engine)) =
       Some (Some TypeError, snd (loadProtocol example_two_conditions initial_engine))"
    using 6 by (simp add: activateProtocol_def example_two_conditions_def t)
  from 1 2 3 4 5 6 7 8 show ?thesis
    by blast
qed

section \<open>Deactivation\<close>

text \<open>
  C8, amended. Deactivating a protocol twice leaves the registry, the active protocols
  and the calls to the tactical core as deactivating it once does, with no entry for the
  protocol. Every call emits a \<^verbatim>\<open>protocol:deactivated\<close> notification, so two calls emit
  two, the second although no entry was removed.
\<close>

theorem deactivateProtocol_twice:
  "protocols (deactivateProtocol p (deactivateProtocol p st)) = protocols (deactivateProtocol p st)
   \<and> activeProtocols (deactivateProtocol p (deactivateProtocol p st)) =
       activeProtocols (deactivateProtocol p st)
   \<and> core_calls (deactivateProtocol p (deactivateProtocol p st)) =
       core_calls (deactivateProtocol p st)
   \<and> active_entry (deactivateProtocol p st) p = None
   \<and> active_entry (deactivateProtocol p (deactivateProtocol p st)) p = None
   \<and> emitted (deactivateProtocol p st) = emitted st @ [ProtocolDeactivated p]
   \<and> emitted (deactivateProtocol p (deactivateProtocol p st)) =
       emitted st @ [ProtocolDeactivated p, ProtocolDeactivated p]"
  by (simp add: deactivateProtocol_def emit_def active_entry_def delete_idem delete_conv')

theorem deactivateProtocol_twice_notifies_twice:
  "emitted (deactivateProtocol ''p1'' (deactivateProtocol ''p1''
      (set_active ''p1'' [''s1''] initial_engine))) =
     [ProtocolDeactivated ''p1'', ProtocolDeactivated ''p1'']"
  by (simp add: deactivateProtocol_def emit_def set_active_def initial_engine_def)

section \<open>Reachable states\<close>

lemma keys_active_entry: "fst ` set (activeProtocols st) = {k. active_entry st k \<noteq> None}"
  by (auto simp: active_entry_def dom_map_of_conv_image_fst [symmetric])

lemma run_distinct:
  "executeProtocolStep n w P step ctx st = Some st' \<Longrightarrow>
     distinct (map fst (activeProtocols st)) \<longrightarrow> distinct (map fst (activeProtocols st'))"
  "progressProtocol n w P step ctx st = Some st' \<Longrightarrow>
     distinct (map fst (activeProtocols st)) \<longrightarrow> distinct (map fst (activeProtocols st'))"
  "executeSteps n w P ids ctx st = Some st' \<Longrightarrow>
     distinct (map fst (activeProtocols st)) \<longrightarrow> distinct (map fst (activeProtocols st'))"
  by (rule run_related [where R = "\<lambda>a b. distinct (map fst (activeProtocols a)) \<longrightarrow>
          distinct (map fst (activeProtocols b))" and p = "protocol_id P"];
      simp add: emit_def set_active_def distinct_update)+

lemma run_events:
  "executeProtocolStep n w P step ctx st = Some st' \<Longrightarrow>
     \<exists>evs. emitted st' = emitted st @ evs \<and> (\<forall>ev\<in>set evs. \<exists>i. step_event (protocol_id P) i ev)"
  "progressProtocol n w P step ctx st = Some st' \<Longrightarrow>
     \<exists>evs. emitted st' = emitted st @ evs \<and> (\<forall>ev\<in>set evs. \<exists>i. step_event (protocol_id P) i ev)"
  "executeSteps n w P ids ctx st = Some st' \<Longrightarrow>
     \<exists>evs. emitted st' = emitted st @ evs \<and> (\<forall>ev\<in>set evs. \<exists>i. step_event (protocol_id P) i ev)"
  by (rule run_related [where R = "\<lambda>a b. \<exists>evs. emitted b = emitted a @ evs \<and>
          (\<forall>ev\<in>set evs. \<exists>i. step_event (protocol_id P) i ev)" and p = "protocol_id P"];
      fastforce simp: emit_def set_active_def)+

lemma well_formed_run:
  assumes "well_formed st" and "protocols st (protocol_id P) \<noteq> None"
  shows "executeProtocolStep n w P step ctx st = Some st' \<Longrightarrow> well_formed st'"
    and "executeSteps n w P ids ctx st = Some st' \<Longrightarrow> well_formed st'"
  using assms run_protocols(1) [of n w P step ctx st st'] run_others(1) [of n w P step ctx st st']
    run_distinct(1) [of n w P step ctx st st']
    run_protocols(3) [of n w P ids ctx st st'] run_others(3) [of n w P ids ctx st st']
    run_distinct(3) [of n w P ids ctx st st']
  unfolding well_formed_def by metis+

lemma well_formed_set_active:
  "well_formed st \<Longrightarrow> protocols st k \<noteq> None \<Longrightarrow> well_formed (set_active k ids st)"
  by (auto simp: well_formed_def set_active_def active_entry_def update_conv' distinct_update)

lemma well_formed_emit: "well_formed (emit e st) = well_formed st"
  by (simp add: well_formed_def emit_def active_entry_def)

lemma well_formed_deactivate: "well_formed st \<Longrightarrow> well_formed (deactivateProtocol k st)"
  by (auto simp: well_formed_def deactivateProtocol_def emit_def active_entry_def delete_conv'
      distinct_delete)

lemma well_formed_load:
  assumes "well_formed st" and "loadProtocol P st = (r, st')"
  shows "well_formed st'"
proof (cases "validateProtocol P")
  case (Some e)
  with assms show ?thesis
    by (simp add: loadProtocol_def)
next
  case None
  with assms(2) have st': "protocols st' = (protocols st)(protocol_id P \<mapsto> P)"
    "activeProtocols st' = activeProtocols st"
    by (auto simp: loadProtocol_def emit_def)
  then have "active_entry st' = active_entry st"
    by (simp add: active_entry_def fun_eq_iff)
  with assms(1) st' None show ?thesis
    unfolding well_formed_def by auto
qed

lemma well_formed_activate:
  assumes "well_formed st" and "activateProtocol n w pid ctx st = Some (r, st')"
  shows "well_formed st'"
proof (cases r)
  case (Some e)
  with assms show ?thesis
    by (auto simp: activateProtocol_def split: option.splits sum.splits if_splits list.splits)
next
  case None
  with assms(2) obtain P step0 st1 where
    P: "protocols st pid = Some P"
    and x: "executeProtocolStep n w P step0 ctx (set_active pid [step_id step0] st) = Some st1"
    and e: "st' = emit (ProtocolActivated pid (step_id step0)) st1"
    by (auto simp: activateProtocol_def split: option.splits sum.splits if_splits list.splits)
  from assms(1) P have i: "protocol_id P = pid"
    by (simp add: well_formed_def)
  from assms(1) P have "well_formed (set_active pid [step_id step0] st)"
    by (simp add: well_formed_set_active)
  moreover from P i have "protocols (set_active pid [step_id step0] st) (protocol_id P) \<noteq> None"
    by (simp add: set_active_def)
  ultimately have "well_formed st1"
    using x by (rule well_formed_run(1))
  with e show ?thesis
    by (simp add: well_formed_emit)
qed

lemma evaluate_entry_cases:
  assumes "evaluate_entry n w u k st = Some (r, st')"
  obtains (skip) "r = None" "st' = st" "active_entry st k = None \<or> protocols st k = None"
  | (raise) e ids P where "r = Some e" "st' = st" "active_entry st k = Some ids"
      "protocols st k = Some P"
      "every_condition (now w) (conditions P) (update_context u ids) = Inl e"
  | (deactivate) ids P where "r = None" "st' = deactivateProtocol k st"
      "active_entry st k = Some ids" "protocols st k = Some P"
      "every_condition (now w) (conditions P) (update_context u ids) = Inr False"
  | (run) ids P where "r = None" "active_entry st k = Some ids" "protocols st k = Some P"
      "every_condition (now w) (conditions P) (update_context u ids) = Inr True"
      "executeSteps n w P ids (update_context u ids) st = Some st'"
  using assms
  by (auto simp: evaluate_entry_def active_entry_def Let_def
      split: option.splits sum.splits if_splits)


lemma step_event_protocol: "step_event p i ev \<Longrightarrow> event_protocol ev = p"
  by (cases ev) auto

lemma entry_effect:
  assumes "well_formed st" and "evaluate_entry n w u k st = Some (r, st')"
  shows "well_formed st'"
    and "protocols st' = protocols st"
    and "\<forall>j. j \<noteq> k \<longrightarrow> active_entry st' j = active_entry st j"
    and "active_entry st' k \<noteq> None \<longrightarrow> active_entry st k \<noteq> None"
    and "\<exists>evs. emitted st' = emitted st @ evs \<and> (\<forall>ev\<in>set evs. event_protocol ev = k)"
proof -
  have "well_formed st' \<and> protocols st' = protocols st
      \<and> (\<forall>j. j \<noteq> k \<longrightarrow> active_entry st' j = active_entry st j)
      \<and> (active_entry st' k \<noteq> None \<longrightarrow> active_entry st k \<noteq> None)
      \<and> (\<exists>evs. emitted st' = emitted st @ evs \<and> (\<forall>ev\<in>set evs. event_protocol ev = k))"
    using assms(2)
  proof (cases rule: evaluate_entry_cases)
    case skip
    with assms(1) show ?thesis by simp
  next
    case (raise e ids P)
    with assms(1) show ?thesis by simp
  next
    case (deactivate ids P)
    with assms(1) show ?thesis
      by (simp add: well_formed_deactivate)
        (simp add: deactivateProtocol_def emit_def active_entry_def delete_conv')
  next
    case (run ids P)
    from assms(1) run(3) have i: "protocol_id P = k"
      by (simp add: well_formed_def)
    with run(3) have "protocols st (protocol_id P) \<noteq> None"
      by simp
    from well_formed_run(2) [OF assms(1) this run(5)] have "well_formed st'" .
    moreover from run_events(3) [OF run(5)] i
    have "\<exists>evs. emitted st' = emitted st @ evs \<and> (\<forall>ev\<in>set evs. event_protocol ev = k)"
      by (auto dest: step_event_protocol)
    ultimately show ?thesis
      using run_protocols(3) [OF run(5)] run_others(3) [OF run(5)] run(2) i
      by simp
  qed
  then show "well_formed st'"
    and "protocols st' = protocols st"
    and "\<forall>j. j \<noteq> k \<longrightarrow> active_entry st' j = active_entry st j"
    and "active_entry st' k \<noteq> None \<longrightarrow> active_entry st k \<noteq> None"
    and "\<exists>evs. emitted st' = emitted st @ evs \<and> (\<forall>ev\<in>set evs. event_protocol ev = k)"
    by simp_all
qed

lemma entries_effect:
  assumes "well_formed st" and "evaluate_entries n w u ks st = Some (r, st')"
  shows "well_formed st' \<and> protocols st' = protocols st
      \<and> (\<forall>j. j \<notin> set ks \<longrightarrow> active_entry st' j = active_entry st j)
      \<and> (\<forall>j. active_entry st' j \<noteq> None \<longrightarrow> active_entry st j \<noteq> None)
      \<and> (\<exists>evs. emitted st' = emitted st @ evs \<and> (\<forall>ev\<in>set evs. event_protocol ev \<in> set ks))"
  using assms
proof (induct ks arbitrary: st)
  case Nil
  then show ?case by simp
next
  case (Cons k ks)
  from Cons.prems(2) obtain r1 st1 where
    1: "evaluate_entry n w u k st = Some (r1, st1)"
    by (auto split: option.splits)
  note e = entry_effect [OF Cons.prems(1) 1]
  show ?case
  proof (cases r1)
    case (Some err)
    with Cons.prems(2) 1 have "st' = st1"
      by simp
    with e show ?thesis
      by (metis list.set_intros(1,2))
  next
    case None
    with Cons.prems(2) 1 have 2: "evaluate_entries n w u ks st1 = Some (r, st')"
      by simp
    from Cons.hyps [OF e(1) 2] obtain evs2 where
      h: "well_formed st'" "protocols st' = protocols st1"
      "\<forall>j. j \<notin> set ks \<longrightarrow> active_entry st' j = active_entry st1 j"
      "\<forall>j. active_entry st' j \<noteq> None \<longrightarrow> active_entry st1 j \<noteq> None"
      "emitted st' = emitted st1 @ evs2" "\<forall>ev\<in>set evs2. event_protocol ev \<in> set ks"
      by blast
    from e(5) obtain evs1 where
      g: "emitted st1 = emitted st @ evs1" "\<forall>ev\<in>set evs1. event_protocol ev = k"
      by blast
    have "emitted st' = emitted st @ (evs1 @ evs2)
        \<and> (\<forall>ev\<in>set (evs1 @ evs2). event_protocol ev \<in> set (k # ks))"
      using h(5,6) g by auto
    then have "\<exists>evs. emitted st' = emitted st @ evs
        \<and> (\<forall>ev\<in>set evs. event_protocol ev \<in> set (k # ks))" ..
    moreover have "\<forall>j. j \<notin> set (k # ks) \<longrightarrow> active_entry st' j = active_entry st j"
      using h(3) e(3) by simp
    moreover have "\<forall>j. active_entry st' j \<noteq> None \<longrightarrow> active_entry st j \<noteq> None"
      using h(4) e(3,4) by metis
    ultimately show ?thesis
      using h(1,2) e(2) by simp
  qed
qed

lemma well_formed_evaluate:
  "well_formed st \<Longrightarrow> evaluateProtocols n w u st = Some (r, st') \<Longrightarrow> well_formed st'"
  unfolding evaluateProtocols_def by (blast dest: entries_effect)

lemma reachable_well_formed: "reachable st \<Longrightarrow> well_formed st"
proof (induct rule: reachable.induct)
  case initial
  show ?case
    by (simp add: well_formed_def initial_engine_def active_entry_def)
next
  case (load st protocol r st')
  then show ?case by (blast intro: well_formed_load)
next
  case (activate st n w protocolId ctx r st')
  then show ?case by (blast intro: well_formed_activate)
next
  case (evaluate st n w situationUpdate r st')
  then show ?case by (blast intro: well_formed_evaluate)
next
  case (deactivate st protocolId)
  then show ?case by (simp add: well_formed_deactivate)
qed

text \<open>
  C9. In every reachable state each id with an entry in \<^verbatim>\<open>activeProtocols\<close> has an entry
  in the registry. Loading removes no registry entry and leaves the active protocols
  alone; an activation adds at most the entry of the id it was asked for, and none when
  that id is not registered; a re-evaluation and a deactivation add none.
\<close>

theorem active_protocols_registered:
  assumes "reachable st"
  shows "fst ` set (activeProtocols st) \<subseteq> dom (protocols st)
     \<and> (\<forall>P. dom (protocols st) \<subseteq> dom (protocols (snd (loadProtocol P st)))
            \<and> activeProtocols (snd (loadProtocol P st)) = activeProtocols st)
     \<and> (\<forall>n w pid ctx r st'. activateProtocol n w pid ctx st = Some (r, st') \<longrightarrow>
            fst ` set (activeProtocols st') \<subseteq> insert pid (fst ` set (activeProtocols st))
            \<and> (protocols st pid = None \<longrightarrow> st' = st))
     \<and> (\<forall>n w u r st'. evaluateProtocols n w u st = Some (r, st') \<longrightarrow>
            fst ` set (activeProtocols st') \<subseteq> fst ` set (activeProtocols st))
     \<and> (\<forall>k. fst ` set (activeProtocols (deactivateProtocol k st)) \<subseteq>
            fst ` set (activeProtocols st))"
proof -
  from assms have wf: "well_formed st"
    by (rule reachable_well_formed)
  then have 1: "fst ` set (activeProtocols st) \<subseteq> dom (protocols st)"
    by (auto simp: keys_active_entry well_formed_def)
  have 2: "dom (protocols st) \<subseteq> dom (protocols (snd (loadProtocol P st)))
      \<and> activeProtocols (snd (loadProtocol P st)) = activeProtocols st" for P
    by (auto simp: loadProtocol_def emit_def split: option.splits)
  have 3: "fst ` set (activeProtocols st') \<subseteq> insert pid (fst ` set (activeProtocols st))
      \<and> (protocols st pid = None \<longrightarrow> st' = st)"
    if a: "activateProtocol n w pid ctx st = Some (r, st')" for n w pid ctx r st'
  proof (cases r)
    case (Some e)
    with a have "st' = st"
      by (auto simp: activateProtocol_def split: option.splits sum.splits if_splits list.splits)
    then show ?thesis by auto
  next
    case None
    with a obtain P step0 st1 where
      P: "protocols st pid = Some P"
      and x: "executeProtocolStep n w P step0 ctx (set_active pid [step_id step0] st) = Some st1"
      and e: "st' = emit (ProtocolActivated pid (step_id step0)) st1"
      by (auto simp: activateProtocol_def split: option.splits sum.splits if_splits list.splits)
    from wf P have i: "protocol_id P = pid"
      by (simp add: well_formed_def)
    have "active_entry st' j = active_entry st j" if "j \<noteq> pid" for j
      using run_others(1) [OF x] i e that
      by (simp add: active_entry_def emit_def set_active_def update_conv')
    with P show ?thesis
      unfolding keys_active_entry by auto
  qed
  have 4: "fst ` set (activeProtocols st') \<subseteq> fst ` set (activeProtocols st)"
    if "evaluateProtocols n w u st = Some (r, st')" for n w u r st'
    using entries_effect [OF wf that [unfolded evaluateProtocols_def]]
    unfolding keys_active_entry by auto
  have 5: "fst ` set (activeProtocols (deactivateProtocol k st)) \<subseteq>
      fst ` set (activeProtocols st)" for k
    unfolding keys_active_entry
    by (auto simp: deactivateProtocol_def emit_def active_entry_def delete_conv')
  from 1 2 3 4 5 show ?thesis
    by blast
qed

lemma reachable_guarded_active: "reachable guarded_active"
proof -
  have "reachable (snd (loadProtocol example_guarded initial_engine))"
    by (rule reachable.load [OF reachable.initial]) (rule surjective_pairing)
  then show ?thesis
    unfolding load_guarded snd_conv
    by (rule reachable.activate [OF _ activate_guarded])
qed

theorem active_protocols_registered_witness:
  "reachable guarded_active
   \<and> fst ` set (activeProtocols guarded_active) = {''g1''}
   \<and> {''g1''} \<subseteq> dom (protocols guarded_active)"
proof -
  have k: "fst ` set (activeProtocols guarded_active) = {''g1''}"
    by (simp add: guarded_active_def)
  from active_protocols_registered [OF reachable_guarded_active] k reachable_guarded_active
  show ?thesis
    by simp
qed

section \<open>Loading a protocol\<close>

text \<open>
  C1. \<^verbatim>\<open>loadProtocol\<close> fails exactly when the protocol has no step or some step's
  \<^verbatim>\<open>nextSteps\<close> names an id that no step of the protocol has. A failure is a structural
  error and leaves the engine as it was; in a reachable state no lookup answers with the
  rejected protocol afterwards. A success stores the protocol under its id and leaves
  every other entry alone; loading a second definition under the same id replaces the
  first.
\<close>

theorem loadProtocol_validates:
  "(fst (loadProtocol P st) \<noteq> None \<longleftrightarrow>
      steps P = [] \<or> (\<exists>s\<in>set (steps P). \<exists>i\<in>set (nextSteps s). i \<notin> step_id ` set (steps P)))
   \<and> (\<forall>e. fst (loadProtocol P st) = Some e \<longrightarrow>
          StructuralError e \<and> snd (loadProtocol P st) = st)
   \<and> (reachable st \<and> fst (loadProtocol P st) \<noteq> None \<longrightarrow>
          (\<forall>k. protocols (snd (loadProtocol P st)) k \<noteq> Some P))
   \<and> (fst (loadProtocol P st) = None \<longrightarrow>
          protocols (snd (loadProtocol P st)) = (protocols st)(protocol_id P \<mapsto> P)
          \<and> activeProtocols (snd (loadProtocol P st)) = activeProtocols st)
   \<and> (fst (loadProtocol P st) = None \<and> fst (loadProtocol Q (snd (loadProtocol P st))) = None
        \<and> protocol_id Q = protocol_id P \<longrightarrow>
          protocols (snd (loadProtocol Q (snd (loadProtocol P st)))) =
            (protocols st)(protocol_id P \<mapsto> Q))"
proof -
  have bad: "validateProtocol P \<noteq> None \<longleftrightarrow>
      steps P = [] \<or> (\<exists>s\<in>set (steps P). \<exists>i\<in>set (nextSteps s). i \<notin> step_id ` set (steps P))"
    using validateProtocol_None [of P] by auto
  have fst_eq: "fst (loadProtocol P' st') = validateProtocol P'" for P' st'
    by (simp add: loadProtocol_def split: option.splits)
  have fail: "validateProtocol P' = Some e \<Longrightarrow> snd (loadProtocol P' st') = st'" for P' st' e
    by (simp add: loadProtocol_def)
  have ok: "validateProtocol P' = None \<Longrightarrow>
      protocols (snd (loadProtocol P' st')) = (protocols st')(protocol_id P' \<mapsto> P')
      \<and> activeProtocols (snd (loadProtocol P' st')) = activeProtocols st'" for P' st'
    by (simp add: loadProtocol_def emit_def)
  have absent: "protocols (snd (loadProtocol P st)) k \<noteq> Some P"
    if r: "reachable st" and f: "validateProtocol P \<noteq> None" for k
  proof
    assume "protocols (snd (loadProtocol P st)) k = Some P"
    with f fail [of P _ st] have "protocols st k = Some P"
      by auto
    with reachable_well_formed [OF r] have "validateProtocol P = None"
      by (simp add: well_formed_def)
    with f show False ..
  qed
  show ?thesis
    using bad validateProtocol_structural [of P] fail [of P _ st] ok [of P st]
      ok [of Q "snd (loadProtocol P st)"] absent
    by (auto simp: fst_eq)
qed

theorem loadProtocol_validates_witness:
  "reachable initial_engine
   \<and> fst (loadProtocol example_dangling initial_engine) = Some (InvalidStepReference ''s9'' ''p2'')
   \<and> snd (loadProtocol example_dangling initial_engine) = initial_engine
   \<and> protocols (snd (loadProtocol example_dangling initial_engine)) ''p2'' \<noteq> Some example_dangling
   \<and> fst (loadProtocol example_empty initial_engine) = Some (EmptyProtocol ''p3'')
   \<and> snd (loadProtocol example_empty initial_engine) = initial_engine
   \<and> fst (loadProtocol roger_roger initial_engine) = None
   \<and> fst (loadProtocol roger_roger_v2 (snd (loadProtocol roger_roger initial_engine))) = None
   \<and> protocols (snd (loadProtocol roger_roger initial_engine)) ''roger-roger'' = Some roger_roger
   \<and> protocols (snd (loadProtocol roger_roger_v2 (snd (loadProtocol roger_roger initial_engine))))
        ''roger-roger'' = Some roger_roger_v2"
proof -
  have d: "fst (loadProtocol example_dangling initial_engine) =
      Some (InvalidStepReference ''s9'' ''p2'')"
    by (simp add: loadProtocol_def validateProtocol_def example_dangling_def)
  have e: "fst (loadProtocol example_empty initial_engine) = Some (EmptyProtocol ''p3'')"
    by (simp add: loadProtocol_def validateProtocol_def example_empty_def)
  have r: "fst (loadProtocol roger_roger st) = None" for st
    by (simp add: loadProtocol_def validateProtocol_def roger_roger_def init_comm_def
        confirm_receipt_def)
  have r2: "fst (loadProtocol roger_roger_v2 st) = None" for st
    by (simp add: loadProtocol_def validateProtocol_def roger_roger_v2_def)
  have i: "protocol_id roger_roger_v2 = protocol_id roger_roger"
    by (simp add: roger_roger_def roger_roger_v2_def)
  have k: "protocol_id roger_roger = ''roger-roger''"
    by (simp add: roger_roger_def)
  from loadProtocol_validates [of example_dangling initial_engine] d reachable.initial
  have 1: "snd (loadProtocol example_dangling initial_engine) = initial_engine"
    and 2: "protocols (snd (loadProtocol example_dangling initial_engine)) ''p2'' \<noteq>
      Some example_dangling"
    by blast+
  from loadProtocol_validates [of example_empty initial_engine] e
  have 3: "snd (loadProtocol example_empty initial_engine) = initial_engine"
    by simp
  from loadProtocol_validates [of roger_roger initial_engine roger_roger_v2] r r2 i k
  have 4: "protocols (snd (loadProtocol roger_roger initial_engine)) ''roger-roger'' =
      Some roger_roger"
    and 5: "protocols (snd (loadProtocol roger_roger_v2 (snd (loadProtocol roger_roger initial_engine))))
        ''roger-roger'' = Some roger_roger_v2"
    by simp_all
  from reachable.initial d 1 2 e 3 r r2 4 5 show ?thesis
    by blast
qed

section \<open>Re-evaluation\<close>













section \<open>Termination\<close>








text \<open>The bound matters: a step that is its own successor never returns in a world
  whose tactical core serves every call.\<close>

lemma loop_never_returns:
  "executeProtocolStep n quiet_world example_loop loop_step ctx st = None"
proof (induct n arbitrary: st)
  case 0
  show ?case by simp
next
  case (Suc n)
  have f: "find_step example_loop ''again'' = Some loop_step"
    by (simp add: find_step_def example_loop_def loop_step_def)
  have a: "executeAction quiet_world (action loop_step) (parameters loop_step) ctx st =
      (None, st\<lparr>core_calls := core_calls st @
         [AddTacticalElement ''operations'' JUndefined JUndefined (now quiet_world)]\<rparr>)"
    by (simp add: executeAction_def call_core_def loop_step_def quiet_world_def js_prop_def)
  have c: "isComplete (now quiet_world) loop_step ctx = Inr True"
    and n: "nextSteps loop_step = [''again'']"
    by (simp_all add: isComplete_def loop_step_def)
  show ?case
    by (simp add: a c n f Suc)
qed

end
